theory Spec2Isabelle
  imports Complex_Main "HOL-Library.Word" "HOL-Library.Log_Nat"
begin

unbundle bit_operations_syntax

section \<open>JavaScript strings\<close>

text \<open>
  A JavaScript string is a sequence of 16-bit code units. \<open>js\<close> writes a string of ASCII
  characters as such a sequence; \<open>+=\<close> on strings is \<open>@\<close>, a string is falsy when it is empty.
  \<open>isWhiteSpace\<close> holds of the code units that \<open>trim\<close> and \<open>parseInt\<close> strip (the white
  space and line terminator characters of ECMAScript).
\<close>

type_synonym jsstring = "16 word list"

definition js :: "string \<Rightarrow> jsstring" where
  "js s = map of_char s"

definition isWhiteSpace :: "16 word \<Rightarrow> bool" where
  "isWhiteSpace c =
     (c \<in> set [0x9, 0xA, 0xB, 0xC, 0xD, 0x20, 0xA0, 0x1680, 0x2028, 0x2029, 0x202F, 0x205F,
                0x3000, 0xFEFF] \<or>
      (0x2000 \<le> c \<and> c \<le> 0x200A))"

definition trim :: "jsstring \<Rightarrow> jsstring" where
  "trim s = rev (dropWhile isWhiteSpace (rev (dropWhile isWhiteSpace s)))"

text \<open>
  \<open>Date.now()\<close> is a natural number of milliseconds; \<open>toString_nat\<close> is its \<open>toString()\<close>,
  the decimal digits.
\<close>

function toString_nat :: "nat \<Rightarrow> jsstring" where
  "toString_nat n =
     (if n < 10 then [of_nat (48 + n)] else toString_nat (n div 10) @ [of_nat (48 + n mod 10)])"
  by pat_completeness auto
termination
  by (relation "measure (\<lambda>n. n)") auto

declare toString_nat.simps [simp del]

text \<open>
  \<open>parseInt\<close> with no radix: leading white space is skipped, then an optional sign, then
  the prefix \<open>0x\<close> or \<open>0X\<close> selects radix 16 (radix 10 otherwise), then the longest run of
  digits of the radix is read. The result is \<open>NaN\<close> (\<open>None\<close>) when there is no digit. The
  loss of precision above \<open>2\<^sup>5\<^sup>3\<close> is not modelled.
\<close>

definition digit_value :: "nat \<Rightarrow> 16 word \<Rightarrow> nat option" where
  "digit_value R c =
     (let v = (if 48 \<le> c \<and> c \<le> 57 then Some (unat c - 48)
               else if 97 \<le> c \<and> c \<le> 122 then Some (unat c - 87)
               else if 65 \<le> c \<and> c \<le> 90 then Some (unat c - 55)
               else None)
      in case v of None \<Rightarrow> None | Some d \<Rightarrow> (if d < R then Some d else None))"

definition parseInt :: "jsstring \<Rightarrow> int option" where
  "parseInt inputString =
     (let S = dropWhile isWhiteSpace inputString;
          (sign, S1) = (case S of
                          [] \<Rightarrow> (1, S)
                        | c # rest \<Rightarrow> (if c = 45 then (- 1, rest)
                                      else if c = 43 then (1, rest) else (1, S)));
          (R, S2) = (case S1 of
                       a # b # rest \<Rightarrow> (if a = 48 \<and> (b = 120 \<or> b = 88) then (16, rest)
                                        else (10, S1))
                     | _ \<Rightarrow> (10, S1));
          Z = takeWhile (\<lambda>c. digit_value R c \<noteq> None) S2
      in if Z = [] then None
         else Some (sign * int (foldl (\<lambda>acc c. acc * R + the (digit_value R c)) 0 Z)))"

text \<open>A decimal digit.\<close>

definition is_digit :: "16 word \<Rightarrow> bool" where
  "is_digit c = (48 \<le> c \<and> c \<le> 57)"

section \<open>JavaScript numbers\<close>

text \<open>
  A JavaScript number is a double-precision floating-point number (IEEE 754 binary64): a
  real number that the format represents, an infinity, or \<open>NaN\<close>. The two zeros are one
  value here: the sign of a zero decides no branch of the audio code. An element of a
  \<open>Float32Array\<close> is a number that single precision (binary32) represents. Reading an
  index outside a typed array gives \<open>undefined\<close>, which arithmetic and a store into a
  \<open>Float32Array\<close> turn into \<open>NaN\<close>.
\<close>

datatype number = Val real | PInf | NInf | NaN

type_synonym f32 = number

text \<open>
  Rounding to a binary format with \<open>p\<close> bits of precision and least normal exponent
  \<open>emin\<close>, in the default mode of IEEE 754 (to nearest, ties to the even significand).
  \<open>exponent x\<close> is the integer \<open>e\<close> with \<open>2 powi e \<le> \<bar>x\<bar> < 2 powi (e + 1)\<close>, found from the
  number of bits of the integer part of \<open>\<bar>x\<bar>\<close> or of its inverse. The representable
  numbers around \<open>x\<close> are the multiples of the quantum \<open>2 powi (e - p + 1)\<close>, where an exponent
  below \<open>emin\<close> counts as \<open>emin\<close> (the subnormal numbers). A result whose magnitude reaches
  \<open>2 powi (emax + 1)\<close> overflows to an infinity.
\<close>

definition exponent :: "real \<Rightarrow> int" where
  "exponent x =
     (if 1 \<le> \<bar>x\<bar> then bitlen \<lfloor>\<bar>x\<bar>\<rfloor> - 1 else - bitlen (\<lceil>1 / \<bar>x\<bar>\<rceil> - 1))"

definition roundTiesToEven :: "real \<Rightarrow> int" where
  "roundTiesToEven x =
     (let f = \<lfloor>x\<rfloor>; d = x - of_int f
      in if d < 1 / 2 then f else if 1 / 2 < d then f + 1 else if even f then f else f + 1)"

definition round_to_binary :: "nat \<Rightarrow> int \<Rightarrow> real \<Rightarrow> real" where
  "round_to_binary p emin x =
     (if x = 0 then 0
      else let quantum = 2 powi (max (exponent x) emin - int p + 1)
           in of_int (roundTiesToEven (x / quantum)) * quantum)"

definition to_binary :: "nat \<Rightarrow> int \<Rightarrow> int \<Rightarrow> real \<Rightarrow> number" where
  "to_binary p emin emax x =
     (let y = round_to_binary p emin x
      in if 2 powi (emax + 1) \<le> \<bar>y\<bar> then (if 0 < x then PInf else NInf) else Val y)"

text \<open>
  Double precision has 53 bits and exponents from -1022 to 1023, single precision 24 bits
  and exponents from -126 to 127. \<open>fl64 x\<close> is the number that an arithmetic operation
  with the exact result \<open>x\<close> returns, and \<open>round64 x\<close> its value when it is finite.
  \<open>fround\<close> is the conversion of a store into a \<open>Float32Array\<close> (\<open>Math.fround\<close>).
\<close>

definition round64 :: "real \<Rightarrow> real" where
  "round64 = round_to_binary 53 (- 1022)"

definition fl64 :: "real \<Rightarrow> number" where
  "fl64 = to_binary 53 (- 1022) 1023"

fun fround :: "number \<Rightarrow> f32" where
  "fround (Val x) = to_binary 24 (- 126) 127 x"
| "fround PInf = PInf"
| "fround NInf = NInf"
| "fround NaN = NaN"

text \<open>
  The errors of the model: the exceptions of the platform that the code can meet, the error
  object that \<open>connectToJhumaLive\<close> makes for a missing key, and the rejections of
  \<open>getUserMedia\<close> and of the handshake.
\<close>

datatype js_error =
    RangeError
  | NotSupportedError
  | InvalidCharacterError
  | ApiKeyMissing
  | AcquisitionError
  | HandshakeError

type_synonym Float32Array = "f32 list"

text \<open>The sum of two numbers (\<open>sum += buffer[j]\<close>).\<close>

fun fadd :: "number \<Rightarrow> number \<Rightarrow> number" where
  "fadd (Val a) (Val b) = fl64 (a + b)"
| "fadd NaN b = NaN"
| "fadd a NaN = NaN"
| "fadd PInf NInf = NaN"
| "fadd NInf PInf = NaN"
| "fadd PInf b = PInf"
| "fadd a PInf = PInf"
| "fadd NInf b = NInf"
| "fadd a NInf = NInf"

text \<open>\<open>sum / count\<close> with \<open>count > 0\<close>; a count is below \<open>2 ^ 53\<close> and so a number.\<close>

fun fdiv_count :: "number \<Rightarrow> nat \<Rightarrow> number" where
  "fdiv_count (Val a) n = fl64 (a / real n)"
| "fdiv_count PInf n = PInf"
| "fdiv_count NInf n = NInf"
| "fdiv_count NaN n = NaN"

text \<open>\<open>buffer[j]\<close> for an integer index \<open>j\<close>.\<close>

definition read_f32 :: "Float32Array \<Rightarrow> int \<Rightarrow> f32" where
  "read_f32 buffer j = (if 0 \<le> j \<and> j < int (length buffer) then buffer ! nat j else NaN)"

section \<open>Downsampling (\<open>downsampleBuffer\<close>, services/gemini.ts)\<close>

text \<open>
  The inner loop
  \<^verbatim>\<open>for (let j = offset; j < nextOffset && j < buffer.length; j++) { sum += buffer[j]; count++; }\<close>
  with the loop variable and the two accumulators (\<open>sumv\<close> for \<open>sum\<close>) as arguments. The
  loop variable stays below \<open>buffer.length\<close>, which is below \<open>2 ^ 53\<close>, so that \<open>j++\<close> and
  \<open>count++\<close> are exact.
\<close>

function sum_window :: "Float32Array \<Rightarrow> int \<Rightarrow> int \<Rightarrow> number \<times> nat \<Rightarrow> number \<times> nat" where
  "sum_window buffer nextOffset j (sumv, count) =
     (if j < nextOffset \<and> j < int (length buffer)
      then sum_window buffer nextOffset (j + 1) (fadd sumv (read_f32 buffer j), Suc count)
      else (sumv, count))"
  by pat_completeness auto
termination
  by (relation "measure (\<lambda>(buffer, nextOffset, j, acc). nat (nextOffset - j))") auto

declare sum_window.simps [simp del]

text \<open>
  The body of the outer loop: the value stored into \<open>result[i]\<close>,
  \<^verbatim>\<open>const offset = Math.floor(i * ratio);
  const nextOffset = Math.floor((i + 1) * ratio);
  ...
  result[i] = count > 0 ? sum / count : buffer[offset];\<close>
  The index \<open>i\<close> is below the length of \<open>result\<close>, so \<open>i\<close> and \<open>i + 1\<close> are exact, and the
  two products are rounded. The body runs for a positive ratio only (see
  \<open>downsampleBuffer\<close>), so a product that overflows is \<open>Infinity\<close>: as \<open>nextOffset\<close> it leaves
  \<open>buffer.length\<close> as the only bound of the inner loop, as \<open>offset\<close> it makes the window
  empty and \<open>buffer[offset]\<close> undefined. A product of a positive ratio is never
  \<open>-Infinity\<close> or \<open>NaN\<close>; the last cases stand for them, with an empty window.
\<close>

definition window_value :: "Float32Array \<Rightarrow> real \<Rightarrow> nat \<Rightarrow> f32" where
  "window_value buffer ratio i =
     (case fl64 (real i * ratio) of
        Val x \<Rightarrow>
          (let offset = \<lfloor>x\<rfloor>;
               nextOffset = (case fl64 ((real i + 1) * ratio) of
                               Val y \<Rightarrow> \<lfloor>y\<rfloor>
                             | PInf \<Rightarrow> int (length buffer)
                             | _ \<Rightarrow> offset);
               (sumv, count) = sum_window buffer nextOffset offset (Val 0, 0)
           in fround (if count > 0 then fdiv_count sumv count else read_f32 buffer offset))
      | _ \<Rightarrow> NaN)"

text \<open>
  The outer loop \<^verbatim>\<open>for (let i = 0; i < newLength; i++) { ...; result[i] = ...; }\<close>.
\<close>

function downsample_loop :: "Float32Array \<Rightarrow> real \<Rightarrow> nat \<Rightarrow> nat \<Rightarrow> Float32Array \<Rightarrow> Float32Array" where
  "downsample_loop buffer ratio newLength i result =
     (if i < newLength
      then downsample_loop buffer ratio newLength (Suc i) (result[i := window_value buffer ratio i])
      else result)"
  by pat_completeness auto
termination
  by (relation "measure (\<lambda>(buffer, ratio, newLength, i, result). newLength - i)") auto

declare downsample_loop.simps [simp del]

text \<open>
  \<open>downsampleBuffer\<close>. The rates are finite numbers. The ratio is the rounded quotient of
  the rates.
  \<^item> With \<open>outputRate = 0\<close>, or when the quotient overflows, the ratio is infinite,
    \<open>buffer.length / ratio\<close> is zero and the result is an empty array.
  \<^item> When the ratio is zero (\<open>inputRate = 0\<close>, or the quotient underflows),
    \<open>buffer.length / ratio\<close> is infinite for a non-empty buffer and \<open>new Float32Array\<close>
    raises \<open>RangeError\<close>; for an empty buffer it is \<open>NaN\<close>, which gives an empty array.
  \<^item> Otherwise \<open>buffer.length / ratio\<close> is rounded, and \<open>Math.round\<close>, which is exact and
    rounds halves up (\<open>Math.round x = \<lfloor>x + 1/2\<rfloor>\<close>), gives the length. A length that is
    negative or infinite raises \<open>RangeError\<close>, and so does a length of \<open>2 ^ 51\<close> or more,
    whose four bytes per element exceed the largest size of a buffer, \<open>2 ^ 53 - 1\<close>.
  A new \<open>Float32Array\<close> is filled with zeros. The limit of an implementation on the memory
  of an array, below that size, is not modelled.
\<close>

definition downsampleBuffer :: "Float32Array \<Rightarrow> real \<Rightarrow> real \<Rightarrow> js_error + Float32Array" where
  "downsampleBuffer buffer inputRate outputRate =
     (if outputRate = inputRate then Inr buffer
      else if outputRate = 0 then Inr []
      else
        (case fl64 (inputRate / outputRate) of
           Val ratio \<Rightarrow>
             if ratio = 0 then (if buffer = [] then Inr [] else Inl RangeError)
             else
               (case fl64 (real (length buffer) / ratio) of
                  Val x \<Rightarrow>
                    (let newLength = \<lfloor>x + 1 / 2\<rfloor>
                     in if newLength < 0 \<or> 2 ^ 51 \<le> newLength then Inl RangeError
                        else Inr (downsample_loop buffer ratio (nat newLength) 0
                                    (replicate (nat newLength) (Val 0))))
                | _ \<Rightarrow> Inl RangeError)
         | _ \<Rightarrow> Inr []))"

subsection \<open>Vocabulary for the properties of downsampling\<close>

text \<open>
  \<open>window xs lo hi\<close> holds the elements of \<open>xs\<close> at the indices from \<open>lo\<close> up to and
  excluding \<open>hi\<close>. A number is a single-precision number when the conversion to single
  precision leaves it as it is. \<open>float_mean w\<close> is the mean of a window as floating-point
  arithmetic computes it: the samples are added in the order of their indices, each sum
  rounded to double precision, and the last sum is divided by their count, the quotient
  rounded to double precision.
\<close>

definition window :: "'a list \<Rightarrow> nat \<Rightarrow> nat \<Rightarrow> 'a list" where
  "window xs lo hi = take (hi - lo) (drop lo xs)"

definition is_float32 :: "number \<Rightarrow> bool" where
  "is_float32 s = (fround s = s)"

definition float_mean :: "number list \<Rightarrow> number" where
  "float_mean w = fdiv_count (foldl fadd (Val 0) w) (length w)"

text \<open>
  The arithmetic mean of a list of finite samples in exact arithmetic, and the sample that
  the specification describes, in exact arithmetic: the mean of the window from
  \<open>\<lfloor>i * ratio\<rfloor>\<close> up to and excluding \<open>\<lfloor>(i + 1) * ratio\<rfloor>\<close>, clipped to the input, where
  \<open>ratio = inputRate / outputRate\<close>, or the sample at \<open>\<lfloor>i * ratio\<rfloor>\<close> when the window is empty.
\<close>

fun f32_value :: "number \<Rightarrow> real" where
  "f32_value (Val v) = v"
| "f32_value s = 0"

fun is_finite :: "number \<Rightarrow> bool" where
  "is_finite (Val v) = True"
| "is_finite s = False"

definition arithmetic_mean :: "number list \<Rightarrow> number" where
  "arithmetic_mean w =
     (if list_all is_finite w then Val (sum_list (map f32_value w) / real (length w)) else NaN)"

definition exact_sample :: "Float32Array \<Rightarrow> real \<Rightarrow> real \<Rightarrow> nat \<Rightarrow> number" where
  "exact_sample buffer inputRate outputRate i =
     (let ratio = inputRate / outputRate;
          lo = nat \<lfloor>real i * ratio\<rfloor>;
          hi = min (nat \<lfloor>(real i + 1) * ratio\<rfloor>) (length buffer);
          w = window buffer lo hi
      in if w = [] then read_f32 buffer (int lo) else arithmetic_mean w)"

section \<open>PCM decoding and encoding (services/gemini.ts)\<close>

text \<open>
  Typed arrays over one \<open>ArrayBuffer\<close>: a \<open>Uint8Array\<close> is a list of bytes, an
  \<open>Int16Array\<close> a list of 16-bit words read as signed (\<open>sint\<close>). The two views of one
  buffer are related in the byte order of the platform, which is little-endian on the
  platforms a browser runs on.
\<close>

type_synonym byte = "8 word"
type_synonym Int16Array = "16 word list"

text \<open>
  The elements of \<open>new Int16Array(data.buffer)\<close> for a buffer whose length is a multiple of
  two. The last equation covers the empty buffer; a single trailing byte is never reached
  from \<open>processPcmData\<close>, which has raised before (see there).
\<close>

fun int16_view :: "byte list \<Rightarrow> Int16Array" where
  "int16_view (lo # hi # rest) = (push_bit 8 (ucast hi) OR ucast lo) # int16_view rest"
| "int16_view _ = []"

text \<open>The bytes of \<open>new Uint8Array(pcmData.buffer)\<close>.\<close>

definition uint8_view :: "Int16Array \<Rightarrow> byte list" where
  "uint8_view ws = concat (map (\<lambda>w. [ucast w, ucast (drop_bit 8 w)]) ws)"

text \<open>
  What \<open>processPcmData\<close> uses of its \<open>AudioContext\<close> is \<open>createBuffer\<close>, which raises
  \<open>NotSupportedError\<close> when the number of channels or the length is zero or when an
  argument is outside the range the implementation supports. The limits are fields of the
  context; \<open>standard_ctx\<close> below has the limits that the Web Audio API requires every
  implementation to support at least (32 channels, rates from 8000 to 96000 Hz).
\<close>

record AudioContext =
  maxChannels :: nat
  minRate :: real
  maxRate :: real

text \<open>
  An \<open>AudioBuffer\<close>: \<open>bufferLength\<close> is its \<open>length\<close> in sample-frames, \<open>bufferRate\<close> its
  \<open>sampleRate\<close>, and \<open>channelData ! c\<close> is \<open>getChannelData(c)\<close>.
\<close>

record AudioBuffer =
  numberOfChannels :: nat
  bufferLength :: nat
  bufferRate :: real
  channelData :: "Float32Array list"

definition duration :: "AudioBuffer \<Rightarrow> real" where
  "duration buffer = real (bufferLength buffer) / bufferRate buffer"

definition createBuffer :: "AudioContext \<Rightarrow> nat \<Rightarrow> nat \<Rightarrow> real \<Rightarrow> js_error + AudioBuffer" where
  "createBuffer ctx numChannels len sampleRate =
     (if numChannels = 0 \<or> maxChannels ctx < numChannels \<or> len = 0 \<or>
         sampleRate < minRate ctx \<or> maxRate ctx < sampleRate
      then Inl NotSupportedError
      else Inr \<lparr>numberOfChannels = numChannels, bufferLength = len, bufferRate = sampleRate,
                channelData = replicate numChannels (replicate len (Val 0))\<rparr>)"

text \<open>
  \<open>dataInt16[k] / 32768.0\<close>. A signed 16-bit integer divided by \<open>2\<^sup>1\<^sup>5\<close> is a
  single-precision number, so the store into the \<open>Float32Array\<close> does not round.
\<close>

definition scaled_int16 :: "Int16Array \<Rightarrow> nat \<Rightarrow> f32" where
  "scaled_int16 dataInt16 k =
     (if k < length dataInt16 then Val (real_of_int (sint (dataInt16 ! k)) / 32768) else NaN)"

text \<open>
  The inner loop of \<open>processPcmData\<close>,
  \<^verbatim>\<open>for (let i = 0; i < frameCount; i++) channelData[i] = dataInt16[i * numChannels + channel] / 32768.0;\<close>
  where \<open>frameCount\<close> is a number that need not be whole. A store at an index outside a
  typed array is ignored, as \<open>cd[i := v]\<close> is for a list.
\<close>

function fill_channel ::
  "Int16Array \<Rightarrow> nat \<Rightarrow> nat \<Rightarrow> real \<Rightarrow> nat \<Rightarrow> Float32Array \<Rightarrow> Float32Array" where
  "fill_channel dataInt16 numChannels channel frameCount i cd =
     (if real i < frameCount
      then fill_channel dataInt16 numChannels channel frameCount (Suc i)
             (cd[i := scaled_int16 dataInt16 (i * numChannels + channel)])
      else cd)"
  by pat_completeness auto
termination
proof (relation "measure (\<lambda>(dataInt16, numChannels, channel, frameCount, i, cd). nat \<lceil>frameCount\<rceil> - i)")
  show "wf (measure (\<lambda>(dataInt16, numChannels, channel, frameCount, i, cd). nat \<lceil>frameCount\<rceil> - i))"
    by simp
next
  fix dataInt16 :: Int16Array and numChannels channel :: nat and frameCount :: real and i :: nat
    and cd :: Float32Array
  assume "real i < frameCount"
  then have "int i < \<lceil>frameCount\<rceil>" by (simp add: less_ceiling_iff)
  then have "i < nat \<lceil>frameCount\<rceil>" by linarith
  then show "((dataInt16, numChannels, channel, frameCount, Suc i,
               cd[i := scaled_int16 dataInt16 (i * numChannels + channel)]),
              (dataInt16, numChannels, channel, frameCount, i, cd))
             \<in> measure (\<lambda>(dataInt16, numChannels, channel, frameCount, i, cd). nat \<lceil>frameCount\<rceil> - i)"
    by simp
qed

declare fill_channel.simps [simp del]

text \<open>
  \<open>processPcmData\<close>. The argument \<open>data\<close> is a \<open>Uint8Array\<close> that covers its whole buffer,
  as the arrays that \<open>base64ToBytes\<close> makes do. \<open>new Int16Array(data.buffer)\<close> raises
  \<open>RangeError\<close> when the byte length of the buffer is not a multiple of two. With \<open>numChannels = 0\<close> the frame count is
  infinite or \<open>NaN\<close> and \<open>createBuffer\<close> raises for the zero channel count. Otherwise
  \<open>createBuffer\<close> converts the frame count to an unsigned long, which drops its fraction
  (the lengths of arrays are below \<open>2\<^sup>3\<^sup>2\<close>).
\<close>

definition processPcmData :: "byte list \<Rightarrow> AudioContext \<Rightarrow> real \<Rightarrow> nat \<Rightarrow> js_error + AudioBuffer" where
  "processPcmData data ctx sampleRate numChannels =
     (if odd (length data) then Inl RangeError
      else
        let dataInt16 = int16_view data in
        if numChannels = 0 then Inl NotSupportedError
        else
          let frameCount = real (length dataInt16) / real numChannels in
          case createBuffer ctx numChannels (nat \<lfloor>frameCount\<rfloor>) sampleRate of
            Inl e \<Rightarrow> Inl e
          | Inr buffer \<Rightarrow>
              Inr (buffer\<lparr>channelData :=
                     map (\<lambda>channel. fill_channel dataInt16 numChannels channel frameCount 0
                                       (channelData buffer ! channel))
                         [0..<numChannels]\<rparr>))"

definition standard_ctx :: AudioContext where
  "standard_ctx = \<lparr>maxChannels = 32, minRate = 8000, maxRate = 96000\<rparr>"

text \<open>Sample \<open>k\<close> of a byte sequence read as signed 16-bit little-endian integers.\<close>

definition int16_at :: "byte list \<Rightarrow> nat \<Rightarrow> int" where
  "int16_at data k = sint (push_bit 8 (ucast (data ! (2 * k + 1))) OR ucast (data ! (2 * k)) :: 16 word)"

text \<open>
  The conversion to 16-bit PCM in \<open>scriptProcessor.onaudioprocess\<close>:
  \<^verbatim>\<open>const s = Math.max(-1, Math.min(1, downsampledData[i]));
  pcmData[i] = s < 0 ? s * 0x8000 : s * 0x7FFF;\<close>
  A store into an \<open>Int16Array\<close> truncates a number towards zero and wraps it to 16 bits
  (\<open>toInt16\<close>); \<open>NaN\<close> is stored as zero, and the clamp takes an infinite sample to
  \<open>1\<close> or \<open>-1\<close>. For a single-precision sample the products with
  \<open>0x8000\<close> and \<open>0x7FFF\<close> are exact in double precision, so the real product is the
  number the code stores.
\<close>

definition toInt16 :: "real \<Rightarrow> 16 word" where
  "toInt16 x = word_of_int (if x < 0 then \<lceil>x\<rceil> else \<lfloor>x\<rfloor>)"

fun pcm16_sample :: "f32 \<Rightarrow> 16 word" where
  "pcm16_sample NaN = 0"
| "pcm16_sample (Val x) =
     (let s = max (- 1) (min 1 x) in toInt16 (if s < 0 then s * 32768 else s * 32767))"
| "pcm16_sample PInf = toInt16 32767"
| "pcm16_sample NInf = toInt16 (- 32768)"

text \<open>
  The bytes sent for a frame (before base64): the loop over the frame, then
  \<open>new Uint8Array(pcmData.buffer)\<close>.
\<close>

definition encodeFrameToPcm16 :: "Float32Array \<Rightarrow> byte list" where
  "encodeFrameToPcm16 frame = uint8_view (map pcm16_sample frame)"

text \<open>A sample that lies in \<open>[-1, 1]\<close>.\<close>

fun in_unit_range :: "f32 \<Rightarrow> bool" where
  "in_unit_range (Val v) = (- 1 \<le> v \<and> v \<le> 1)"
| "in_unit_range s = False"

section \<open>The live session (\<open>connectToJhumaLive\<close>, services/gemini.ts)\<close>

text \<open>
  \<open>connectToJhumaLive\<close> keeps its state in local variables that its callbacks and the
  methods of the returned object share: \<open>nextStartTime\<close>, the set \<open>sources\<close>, the flags
  \<open>isCleaningUp\<close> and \<open>isSocketOpen\<close>, the microphone stream and the two audio contexts.
  The record \<open>session\<close> holds them, and every callback is a function from session to
  session. What the code does to the world outside (the calls on audio nodes, tracks,
  contexts and the remote session, and the callbacks it invokes) is appended to the field
  \<open>trace\<close>, in the order of the calls.

  A buffer source node is identified by the number of nodes created before it
  (\<open>created\<close>). The set \<open>sources\<close> is a list without repetition in insertion order, the
  order in which \<open>forEach\<close> visits a \<open>Set\<close>. Tracks are identified by numbers.
\<close>

datatype ctx_id = InputCtx | OutputCtx

datatype text_route = SessionSend | RawWebSocket

datatype effect =
    CtxOpen ctx_id
  | GetUserMedia
  | LiveConnect
  | SourceStart nat real real
  | SourceStop nat
  | SourceEnded nat
  | TrackStop nat
  | CtxClose ctx_id
  | SessionClose
  | SendVideoFrame jsstring
  | SendText text_route jsstring
  | OnConnect
  | OnDisconnect
  | OnError js_error

record session =
  outputAudioContext :: AudioContext
  nextStartTime :: real
  sources :: "nat list"
  created :: nat
  isCleaningUp :: bool
  isSocketOpen :: bool
  tracks :: "nat list"
  tracksEnabled :: bool
  textRoute :: "text_route option"
  inputClosed :: bool
  outputClosed :: bool
  trace :: "effect list"

definition emit :: "effect list \<Rightarrow> session \<Rightarrow> session" where
  "emit es s = s\<lparr>trace := trace s @ es\<rparr>"

text \<open>The state at the declarations of the local variables, for a stream with the given tracks.\<close>

definition new_session :: "AudioContext \<Rightarrow> nat list \<Rightarrow> session" where
  "new_session ctx streamTracks =
     \<lparr>outputAudioContext = ctx, nextStartTime = 0, sources = [], created = 0,
      isCleaningUp = False, isSocketOpen = False, tracks = streamTracks,
      tracksEnabled = True, textRoute = None,
      inputClosed = False, outputClosed = False, trace = []\<rparr>"

subsection \<open>Playback: the audio and the interrupted branch of \<open>onmessage\<close>\<close>

text \<open>
  The inline data of a message: absent (or the empty string, which is falsy), the
  base64 text of a byte sequence, which \<open>base64ToBytes\<close> turns into these bytes, or a
  string that is not base64, on which \<open>atob\<close> raises.
\<close>

datatype inline_data = NoAudio | Base64 "byte list" | Malformed

text \<open>
  The audio branch, with the reading of \<open>outputAudioContext.currentTime\<close> as argument:
  \<^verbatim>\<open>nextStartTime = Math.max(nextStartTime, outputAudioContext.currentTime);
  const audioBuffer = processPcmData(pcmBytes, outputAudioContext);
  const source = outputAudioContext.createBufferSource(); ...
  source.start(nextStartTime);
  nextStartTime += audioBuffer.duration;
  sources.add(source);\<close>
  When \<open>base64ToBytes\<close> or \<open>processPcmData\<close> raises, the handler ends there with the error,
  after the first assignment. The clock readings, the durations and \<open>nextStartTime\<close> are
  real numbers here: the rounding of the sum \<open>nextStartTime + audioBuffer.duration\<close> to
  double precision, half a unit in the last place at most, is left out.
\<close>

definition onmessage_audio :: "real \<Rightarrow> inline_data \<Rightarrow> session \<Rightarrow> js_error option \<times> session" where
  "onmessage_audio currentTime base64Audio s =
     (case base64Audio of
        NoAudio \<Rightarrow> (None, s)
      | Malformed \<Rightarrow>
          (Some InvalidCharacterError, s\<lparr>nextStartTime := max (nextStartTime s) currentTime\<rparr>)
      | Base64 pcmBytes \<Rightarrow>
          (let s1 = s\<lparr>nextStartTime := max (nextStartTime s) currentTime\<rparr> in
           (case processPcmData pcmBytes (outputAudioContext s1) 24000 1 of
              Inl e \<Rightarrow> (Some e, s1)
            | Inr audioBuffer \<Rightarrow>
                (let source = created s1;
                     s2 = emit [SourceStart source (nextStartTime s1) (duration audioBuffer)]
                            (s1\<lparr>created := Suc source\<rparr>);
                     s3 = s2\<lparr>nextStartTime := nextStartTime s2 + duration audioBuffer\<rparr>
                 in (None, s3\<lparr>sources := (if source \<in> set (sources s3) then sources s3
                                            else sources s3 @ [source])\<rparr>)))))"

text \<open>The listener of the \<open>ended\<close> event of a source: \<open>sources.delete(source)\<close>.\<close>

definition source_ended :: "nat \<Rightarrow> session \<Rightarrow> session" where
  "source_ended source s = (emit [SourceEnded source] s)\<lparr>sources := removeAll source (sources s)\<rparr>"

text \<open>
  The interrupted branch:
  \<^verbatim>\<open>sources.forEach(s => { try { s.stop(); } catch(e) {} });
  sources.clear();
  nextStartTime = 0;\<close>
\<close>

definition onmessage_interrupted :: "session \<Rightarrow> session" where
  "onmessage_interrupted s =
     (emit (map SourceStop (sources s)) s)\<lparr>sources := [], nextStartTime := 0\<rparr>"

text \<open>The two branches in the order of \<open>onmessage\<close>: the audio of a message first.\<close>

definition onmessage_playback :: "real \<Rightarrow> inline_data \<Rightarrow> bool \<Rightarrow> session \<Rightarrow> js_error option \<times> session" where
  "onmessage_playback currentTime base64Audio interrupted s =
     (case onmessage_audio currentTime base64Audio s of
        (Some e, s1) \<Rightarrow> (Some e, s1)
      | (None, s1) \<Rightarrow> (None, if interrupted then onmessage_interrupted s1 else s1))"

subsection \<open>Teardown: \<open>cleanup\<close>, \<open>disconnect\<close>, \<open>onclose\<close>, \<open>onerror\<close>\<close>

text \<open>\<open>safeCloseAudioContext\<close> closes a context whose state is not \<open>closed\<close>.\<close>

definition safeCloseAudioContext :: "ctx_id \<Rightarrow> session \<Rightarrow> session" where
  "safeCloseAudioContext c s =
     (case c of
        InputCtx \<Rightarrow>
          (if inputClosed s then s else (emit [CtxClose InputCtx] s)\<lparr>inputClosed := True\<rparr>)
      | OutputCtx \<Rightarrow>
          (if outputClosed s then s else (emit [CtxClose OutputCtx] s)\<lparr>outputClosed := True\<rparr>))"

text \<open>
  \<open>cleanup\<close>. It sets \<open>isCleaningUp\<close> before its first \<open>await\<close>, so a call that starts while
  another one waits for a context to close returns at the guard; the model runs a call to
  its end in one step. \<open>cleanup_first\<close> is what a call that passed the guard does before it
  gives up control at its first \<open>await\<close>: the flags, the sources, the tracks, and the call of
  \<open>safeCloseAudioContext\<close> on the input context, which calls \<open>close\<close> on a context that is
  not closed. What is left after that is the call on the output context.
\<close>

definition cleanup_first :: "session \<Rightarrow> session" where
  "cleanup_first s =
     (let s1 = s\<lparr>isCleaningUp := True, isSocketOpen := False\<rparr>;
          s2 = (emit (map SourceStop (sources s1)) s1)\<lparr>sources := []\<rparr>;
          s3 = emit (map TrackStop (tracks s2)) s2
      in safeCloseAudioContext InputCtx s3)"

definition cleanup :: "session \<Rightarrow> session" where
  "cleanup s =
     (if isCleaningUp s then s
      else safeCloseAudioContext OutputCtx (cleanup_first s))"

text \<open>
  \<open>disconnect\<close>:
  \<^verbatim>\<open>sessionPromise.then(session => { try { session.close(); } catch (e) { } });
  await cleanup();\<close>
  The promise has resolved when the object that has \<open>disconnect\<close> exists, so the callback
  that closes the remote session is queued at once and runs when \<open>cleanup\<close> gives up control:
  after \<open>cleanup_first\<close>, or after the guard when a cleanup has started before, and before
  the output context is closed. \<open>onclose\<close> and \<open>onerror\<close> run \<open>cleanup\<close> and then the
  disconnect callback.
\<close>

definition disconnect :: "session \<Rightarrow> session" where
  "disconnect s =
     (if isCleaningUp s then emit [SessionClose] s
      else safeCloseAudioContext OutputCtx (emit [SessionClose] (cleanup_first s)))"

definition onclose :: "session \<Rightarrow> session" where
  "onclose s = emit [OnDisconnect] (cleanup (s\<lparr>isSocketOpen := False\<rparr>))"

definition onerror :: "js_error \<Rightarrow> session \<Rightarrow> session" where
  "onerror e s = emit [OnDisconnect] (cleanup (emit [OnError e] s))"

subsection \<open>Sequences of events\<close>

datatype event =
    Message real inline_data bool
  | Ended nat
  | Disconnect
  | Close
  | Error js_error

fun step :: "event \<Rightarrow> session \<Rightarrow> session" where
  "step (Message currentTime base64Audio interrupted) s =
     snd (onmessage_playback currentTime base64Audio interrupted s)"
| "step (Ended source) s = source_ended source s"
| "step Disconnect s = disconnect s"
| "step Close s = onclose s"
| "step (Error e) s = onerror e s"

fun run :: "event list \<Rightarrow> session \<Rightarrow> session" where
  "run [] s = s"
| "run (e # es) s = run es (step e s)"


subsection \<open>Connecting\<close>

text \<open>
  What \<open>connectToJhumaLive\<close> finds: \<open>process.env.API_KEY\<close> (\<open>None\<close> when undefined), the
  tracks of the stream that \<open>getUserMedia\<close> resolves with (\<open>None\<close> when it rejects), whether
  the handshake of \<open>ai.live.connect\<close> succeeds, the way the remote session object accepts
  text, and the limits of the output context.
\<close>

record environment =
  API_KEY :: "jsstring option"
  microphone :: "nat list option"
  handshake :: bool
  sdkTextRoute :: "text_route option"
  outputLimits :: AudioContext

datatype connection = Inert | Live

text \<open>
  \<open>connectToJhumaLive\<close>. The result is the error the promise rejects with, or the object
  it resolves with: \<open>Inert\<close> is the object of the first return, whose four
  methods have empty bodies, \<open>Live\<close> the object of the last return. With the key missing
  the function returns before it declares its local variables; the session of the result
  then only carries the trace.
\<close>

definition connectToJhumaLive :: "environment \<Rightarrow> (js_error + connection) \<times> session" where
  "connectToJhumaLive env =
     (let s0 = new_session (outputLimits env) [] in
      if API_KEY env = None \<or> API_KEY env = Some []
      then (Inr Inert, emit [OnError ApiKeyMissing] s0)
      else
        (let s1 = emit [CtxOpen InputCtx, CtxOpen OutputCtx, GetUserMedia] s0 in
         (case microphone env of
            None \<Rightarrow> (Inl AcquisitionError, s1)
          | Some streamTracks \<Rightarrow>
              (let s2 = emit [LiveConnect]
                          (s1\<lparr>tracks := streamTracks, textRoute := sdkTextRoute env\<rparr>)
               in if handshake env
                  then (Inr Live, emit [OnConnect] (s2\<lparr>isSocketOpen := True\<rparr>))
                  else (Inl HandshakeError, cleanup s2)))))"

text \<open>The four methods of the returned object.\<close>

definition conn_disconnect :: "connection \<Rightarrow> session \<Rightarrow> session" where
  "conn_disconnect conn s = (case conn of Inert \<Rightarrow> s | Live \<Rightarrow> disconnect s)"

definition conn_sendVideoFrame :: "connection \<Rightarrow> jsstring \<Rightarrow> session \<Rightarrow> session" where
  "conn_sendVideoFrame conn base64Image s =
     (case conn of
        Inert \<Rightarrow> s
      | Live \<Rightarrow> (if isSocketOpen s then emit [SendVideoFrame base64Image] s else s))"

definition conn_sendText :: "connection \<Rightarrow> jsstring \<Rightarrow> session \<Rightarrow> session" where
  "conn_sendText conn t s =
     (case conn of
        Inert \<Rightarrow> s
      | Live \<Rightarrow>
          (if isSocketOpen s
           then (case textRoute s of None \<Rightarrow> s | Some route \<Rightarrow> emit [SendText route t] s)
           else s))"

definition conn_setMuted :: "connection \<Rightarrow> bool \<Rightarrow> session \<Rightarrow> session" where
  "conn_setMuted conn muted s =
     (case conn of Inert \<Rightarrow> s | Live \<Rightarrow> s\<lparr>tracksEnabled := \<not> muted\<rparr>)"

subsection \<open>Vocabulary for the properties of the session\<close>

text \<open>
  A context supports playback when it accepts one channel at 24000 Hz. A chunk is
  decodable when \<open>processPcmData\<close> accepts it; its duration is its number of samples divided
  by 24000. \<open>scheduled\<close> lists the start time and the duration of the sources a trace
  starts, \<open>started\<close> their identities. \<open>schedule\<close> is the rule of the specification: each
  chunk starts at the maximum of the clock and the next free time, and moves the next free
  time to its end.
\<close>

definition supports_playback :: "AudioContext \<Rightarrow> bool" where
  "supports_playback ctx = (1 \<le> maxChannels ctx \<and> minRate ctx \<le> 24000 \<and> 24000 \<le> maxRate ctx)"

definition decodable :: "byte list \<Rightarrow> bool" where
  "decodable c = (even (length c) \<and> c \<noteq> [])"

definition chunk_duration :: "byte list \<Rightarrow> real" where
  "chunk_duration c = real (length c div 2) / 24000"

fun scheduled :: "effect list \<Rightarrow> (real \<times> real) list" where
  "scheduled [] = []"
| "scheduled (SourceStart source t d # es) = (t, d) # scheduled es"
| "scheduled (e # es) = scheduled es"

fun started :: "effect list \<Rightarrow> nat list" where
  "started [] = []"
| "started (SourceStart source t d # es) = source # started es"
| "started (e # es) = started es"


text \<open>
  The audio of a message is playable when there is none or when it is a decodable chunk:
  the audio branch of \<open>onmessage\<close> then ends without an error.
\<close>

fun playable :: "inline_data \<Rightarrow> bool" where
  "playable NoAudio = True"
| "playable (Base64 c) = decodable c"
| "playable Malformed = False"

text \<open>
  Every source that was started is in the set of active sources, or was stopped, or has
  ended.
\<close>

definition accounted :: "session \<Rightarrow> bool" where
  "accounted s =
     (\<forall>source \<in> set (started (trace s)).
        source \<in> set (sources s) \<or> SourceStop source \<in> set (trace s) \<or>
        SourceEnded source \<in> set (trace s))"

text \<open>The release effects: stopping a source or a track, closing a context.\<close>

fun is_release :: "effect \<Rightarrow> bool" where
  "is_release (SourceStop source) = True"
| "is_release (TrackStop t) = True"
| "is_release (CtxClose c) = True"
| "is_release e = False"

section \<open>The conversation component (components/LiveTrafficTalk.tsx)\<close>

text \<open>
  The transcript of the component is a list of items. The \<open>id\<close> of an item is
  \<open>Date.now().toString()\<close>; the fields \<open>text\<close> and \<open>mapData\<close> are optional.
\<close>

datatype sender = User | Jhuma | System

record TranscriptItem =
  item_id :: jsstring
  item_sender :: sender
  item_text :: "jsstring option"
  item_mapData :: "(jsstring \<times> jsstring) option"

text \<open>The status \<open>'idle' | 'connecting' | 'connected' | 'error'\<close>.\<close>

datatype ConnectionStatus = Idle | Connecting | Connected | Failed

text \<open>
  The state of the component: the React state variables \<open>status\<close>, \<open>transcript\<close>,
  \<open>streamingUser\<close> and \<open>streamingJhuma\<close>, and the two refs \<open>userBufferRef\<close> and
  \<open>jhumaBufferRef\<close>, which are plain mutable cells.

  React (from version 18, with a root made by \<open>createRoot\<close>; the synchronous mode of
  older roots is not modelled) does not change a state variable inside a callback. A call of a setter puts an update into the queue of the
  variable and marks the component as having work (\<open>dirty\<close>); the next render, which
  happens after the callback has returned, computes the new state from the queue. An
  update is a value or an updater function \<open>prev => ...\<close>; an updater function is called
  during that render, so what it reads from a ref or from \<open>Date.now()\<close> is read then. There
  is one exception: when the component has no work at all at the call of the setter, React
  may call the updater at once and keep the result (\<open>Eager\<close>); it then drops the update when
  the result is identical to the current state, which for a string is to be equal and for
  a new array never holds. Whether React takes this path is not decided by the source: the
  argument \<open>eager\<close> of the setters of the transcript says so, and the properties below hold
  for both of its values.

  The three updater functions of the source are
  \<^verbatim>\<open>prev => [...prev, { id: Date.now().toString(), sender: 'user', text: userBufferRef.current }]\<close>
  (and the same with \<open>'jhuma'\<close> and \<open>jhumaBufferRef\<close>), and the one of the map callback;
  \<open>setTranscript([])\<close> sets a value.
\<close>

datatype updater =
    SetTo "TranscriptItem list"
  | AppendUtterance sender
  | AppendMap jsstring jsstring

datatype pending = Eager "TranscriptItem list" | Deferred updater

record component =
  status :: ConnectionStatus
  transcript :: "TranscriptItem list"
  queued :: "pending list"
  dirty :: bool
  streamingUser :: jsstring
  streamingJhuma :: jsstring
  userBufferRef :: jsstring
  jhumaBufferRef :: jsstring

text \<open>The component after its first render.\<close>

definition mounted :: component where
  "mounted = \<lparr>status = Idle, transcript = [], queued = [], dirty = False,
              streamingUser = [], streamingJhuma = [], userBufferRef = [], jhumaBufferRef = []\<rparr>"

text \<open>
  Calling an updater at time \<open>now\<close>, in the state \<open>st\<close> of the refs at that time, on the
  previous transcript.
\<close>

definition run_updater :: "nat \<Rightarrow> component \<Rightarrow> updater \<Rightarrow> TranscriptItem list \<Rightarrow> TranscriptItem list" where
  "run_updater now st u prev =
     (case u of
        SetTo v \<Rightarrow> v
      | AppendUtterance sender \<Rightarrow>
          prev @ [\<lparr>item_id = toString_nat now, item_sender = sender,
                    item_text = Some (if sender = User then userBufferRef st else jhumaBufferRef st),
                    item_mapData = None\<rparr>]
      | AppendMap origin destination \<Rightarrow>
          prev @ [\<lparr>item_id = toString_nat now, item_sender = System,
                    item_text = None, item_mapData = Some (origin, destination)\<rparr>])"

definition setTranscript :: "bool \<Rightarrow> nat \<Rightarrow> updater \<Rightarrow> component \<Rightarrow> component" where
  "setTranscript eager now u st =
     (if eager \<and> \<not> dirty st
      then st\<lparr>queued := [Eager (run_updater now st u (transcript st))], dirty := True\<rparr>
      else st\<lparr>queued := queued st @ [Deferred u], dirty := True\<rparr>)"

text \<open>
  The setters of the other state variables are called with values. The model keeps the
  last value set, which is the value after the next render.
\<close>

definition setStreamingUser :: "jsstring \<Rightarrow> component \<Rightarrow> component" where
  "setStreamingUser v st =
     (if \<not> dirty st \<and> v = streamingUser st then st else st\<lparr>streamingUser := v, dirty := True\<rparr>)"

definition setStreamingJhuma :: "jsstring \<Rightarrow> component \<Rightarrow> component" where
  "setStreamingJhuma v st =
     (if \<not> dirty st \<and> v = streamingJhuma st then st else st\<lparr>streamingJhuma := v, dirty := True\<rparr>)"

definition setStatus :: "ConnectionStatus \<Rightarrow> component \<Rightarrow> component" where
  "setStatus v st =
     (if \<not> dirty st \<and> v = status st then st else st\<lparr>status := v, dirty := True\<rparr>)"

text \<open>A render at time \<open>now\<close>: the queue of the transcript is applied in order.\<close>

definition render :: "nat \<Rightarrow> component \<Rightarrow> component" where
  "render now st =
     st\<lparr>transcript :=
          foldl (\<lambda>prev p. case p of Eager v \<Rightarrow> v | Deferred u \<Rightarrow> run_updater now st u prev)
            (transcript st) (queued st),
        queued := [], dirty := False\<rparr>"

text \<open>
  The test of the duplicate check,
  \<^verbatim>\<open>t.sender === 'user' && t.text === userBufferRef.current && parseInt(t.id) > Date.now() - 2000\<close>;
  a comparison with \<open>NaN\<close> is false.
\<close>

definition isRecentDuplicate :: "nat \<Rightarrow> jsstring \<Rightarrow> TranscriptItem \<Rightarrow> bool" where
  "isRecentDuplicate now buffer t =
     (item_sender t = User \<and> item_text t = Some buffer \<and>
      (case parseInt (item_id t) of None \<Rightarrow> False | Some n \<Rightarrow> n > int now - 2000))"

text \<open>
  The transcript callback that \<open>toggleSession\<close> passes to \<open>connectToJhumaLive\<close>. The
  callback is a closure created in one call of \<open>toggleSession\<close>: the variable \<open>transcript\<close>
  in its body is the constant of the render in which that \<open>toggleSession\<close> was created, and
  keeps its value for the life of the session. The first argument \<open>closureTranscript\<close> is
  that value. \<open>now\<close> is \<open>Date.now()\<close> during the call.
\<close>

definition onTranscript ::
  "TranscriptItem list \<Rightarrow> nat \<Rightarrow> bool \<Rightarrow> sender \<Rightarrow> jsstring \<Rightarrow> bool \<Rightarrow> component \<Rightarrow> component" where
  "onTranscript closureTranscript now eager sender fragment isFinal st =
     (if sender = User then
        (let st1 = st\<lparr>userBufferRef := userBufferRef st @ fragment\<rparr>;
             st2 = setStreamingUser (userBufferRef st1) st1
         in if isFinal then
              (let isNew = \<not> list_ex (isRecentDuplicate now (userBufferRef st2)) closureTranscript;
                   st3 = (if trim (userBufferRef st2) \<noteq> [] \<and> isNew
                          then setTranscript eager now (AppendUtterance User) st2 else st2);
                   st4 = st3\<lparr>userBufferRef := []\<rparr>
               in setStreamingUser [] st4)
            else st2)
      else
        (let st1 = st\<lparr>jhumaBufferRef := jhumaBufferRef st @ fragment\<rparr>;
             st2 = setStreamingJhuma (jhumaBufferRef st1) st1
         in if isFinal then
              (let st3 = (if trim (jhumaBufferRef st2) \<noteq> []
                          then setTranscript eager now (AppendUtterance Jhuma) st2 else st2);
                   st4 = st3\<lparr>jhumaBufferRef := []\<rparr>
               in setStreamingJhuma [] st4)
            else st2))"

text \<open>The map callback.\<close>

definition onMapAction :: "nat \<Rightarrow> bool \<Rightarrow> jsstring \<Rightarrow> jsstring \<Rightarrow> component \<Rightarrow> component" where
  "onMapAction now eager origin destination st =
     setTranscript eager now (AppendMap origin destination) st"

text \<open>
  The branch of \<open>toggleSession\<close> that starts a session (taken when the status is neither
  \<open>connected\<close> nor \<open>connecting\<close>), up to the call of \<open>connectToJhumaLive\<close>. The first
  component of the result is the value of \<open>transcript\<close> that the callbacks close over: the
  transcript of the render before the click, not the empty list that \<open>setTranscript([])\<close>
  queues.
\<close>

definition toggleSession_start :: "bool \<Rightarrow> nat \<Rightarrow> component \<Rightarrow> TranscriptItem list \<times> component" where
  "toggleSession_start eager now st =
     (let st1 = setStatus Connecting st;
          st2 = setTranscript eager now (SetTo []) st1;
          st3 = st2\<lparr>userBufferRef := [], jhumaBufferRef := []\<rparr>;
          st4 = setStreamingJhuma [] (setStreamingUser [] st3)
      in (transcript st, st4))"

text \<open>
  What happens to the component during a session: a transcript fragment or a map action
  arrives (with the time and React's choice), the connection opens, or React renders.
\<close>

datatype ui_event =
    Fragment nat bool sender jsstring bool
  | MapAction nat bool jsstring jsstring
  | Opened
  | Render nat

fun ui_step :: "TranscriptItem list \<Rightarrow> ui_event \<Rightarrow> component \<Rightarrow> component" where
  "ui_step closureTranscript (Fragment now eager sender fragment isFinal) st =
     onTranscript closureTranscript now eager sender fragment isFinal st"
| "ui_step closureTranscript (MapAction now eager origin destination) st =
     onMapAction now eager origin destination st"
| "ui_step closureTranscript Opened st = setStatus Connected st"
| "ui_step closureTranscript (Render now) st = render now st"

fun ui_run :: "TranscriptItem list \<Rightarrow> ui_event list \<Rightarrow> component \<Rightarrow> component" where
  "ui_run closureTranscript [] st = st"
| "ui_run closureTranscript (e # es) st = ui_run closureTranscript es (ui_step closureTranscript e st)"

text \<open>A session started at time \<open>now\<close> from the component \<open>st\<close>, followed by the events.\<close>

definition session_run :: "nat \<Rightarrow> ui_event list \<Rightarrow> component \<Rightarrow> component" where
  "session_run now es st =
     (case toggleSession_start False now st of
        (closureTranscript, st') \<Rightarrow> ui_run closureTranscript es st')"

subsection \<open>Vocabulary for the properties of the component\<close>

text \<open>
  The text that an event adds to the buffer of the user, and whether an event is a final
  fragment of the user.
\<close>

fun user_fragment :: "ui_event \<Rightarrow> jsstring" where
  "user_fragment (Fragment now eager sender fragment isFinal) =
     (if sender = User then fragment else [])"
| "user_fragment e = []"

fun finalizes_user :: "ui_event \<Rightarrow> bool" where
  "finalizes_user (Fragment now eager sender fragment isFinal) = (sender = User \<and> isFinal)"
| "finalizes_user e = False"

section \<open>JavaScript strings: properties\<close>

text \<open>
  The id of an item reads back as the time at which it was written:
  \<open>parseInt (Date.now().toString())\<close> is \<open>Date.now()\<close>.
\<close>

lemma digit_word:
  assumes "d < 10"
  shows "unat (of_nat (48 + d) :: 16 word) = 48 + d"
    and "(48 :: 16 word) \<le> of_nat (48 + d)" and "(of_nat (48 + d) :: 16 word) \<le> 57"
proof -
  have "unat (of_nat (48 + d) :: 16 word) = (48 + d) mod 2 ^ LENGTH(16)"
    by (simp only: unat_of_nat)
  also have "\<dots> = 48 + d" using assms by simp
  finally show u: "unat (of_nat (48 + d) :: 16 word) = 48 + d" .
  show "(48 :: 16 word) \<le> of_nat (48 + d)"
    using u by (simp add: word_le_nat_alt)
  show "(of_nat (48 + d) :: 16 word) \<le> 57"
    using u assms by (simp add: word_le_nat_alt)
qed

lemma digit_value_10: "is_digit c \<Longrightarrow> digit_value 10 c = Some (unat c - 48)"
proof -
  assume a: "is_digit c"
  then have "unat c \<le> 57" by (simp add: is_digit_def word_le_nat_alt)
  then have "unat c - 48 < 10" by simp
  then show ?thesis using a by (simp add: digit_value_def is_digit_def)
qed

lemma is_digit_not_space: "is_digit c \<Longrightarrow> \<not> isWhiteSpace c"
  unfolding is_digit_def isWhiteSpace_def word_le_nat_alt
  by (auto simp: word_le_nat_alt)

lemma is_digit_not_sign: "is_digit c \<Longrightarrow> c \<noteq> 45 \<and> c \<noteq> 43 \<and> c \<noteq> 120 \<and> c \<noteq> 88"
  unfolding is_digit_def by auto

lemma toString_nat_digits:
  "toString_nat n \<noteq> [] \<and> list_all is_digit (toString_nat n) \<and>
   foldl (\<lambda>acc c. acc * 10 + (unat c - 48)) 0 (toString_nat n) = n"
proof (induction n rule: toString_nat.induct)
  case (1 n)
  show ?case
  proof (cases "n < 10")
    case True
    then have "toString_nat n = [of_nat (48 + n)]" by (subst toString_nat.simps) simp
    then show ?thesis using digit_word [OF True] by (simp add: is_digit_def)
  next
    case False
    have m: "n mod 10 < 10" by simp
    have eq: "toString_nat n = toString_nat (n div 10) @ [of_nat (48 + n mod 10)]"
      using False by (subst toString_nat.simps) simp
    show ?thesis
      using "1.IH" [OF False] digit_word [OF m] unfolding eq by (simp add: is_digit_def)
  qed
qed

lemma parseInt_digits:
  assumes "ds \<noteq> []" and "list_all is_digit ds"
  shows "parseInt ds = Some (int (foldl (\<lambda>acc c. acc * 10 + (unat c - 48)) 0 ds))"
proof -
  obtain c rest where ds: "ds = c # rest" using assms(1) by (cases ds) auto
  have c: "is_digit c" and rest: "list_all is_digit rest" using assms(2) ds by simp_all
  have S: "dropWhile isWhiteSpace ds = ds" using c ds is_digit_not_space by simp
  have tw: "takeWhile (\<lambda>c. \<exists>y. digit_value 10 c = Some y) ds = ds"
    using assms(2) by (induction ds) (simp_all add: digit_value_10)
  have fold: "foldl (\<lambda>acc c. acc * 10 + the (digit_value 10 c)) a ds =
              foldl (\<lambda>acc c. acc * 10 + (unat c - 48)) a ds" for a
    using assms(2) by (induction ds arbitrary: a) (simp_all add: digit_value_10)
  have radix: "(case ds of a # b # r \<Rightarrow> (if a = 48 \<and> (b = 120 \<or> b = 88) then (16, r) else (10, ds))
                | _ \<Rightarrow> (10::nat, ds)) = (10, ds)"
  proof (cases rest)
    case Nil
    then show ?thesis using ds by simp
  next
    case (Cons b r)
    then have "is_digit b" using rest by simp
    then show ?thesis using ds Cons is_digit_not_sign [of b] by simp
  qed
  have sign: "(case ds of [] \<Rightarrow> (1, ds)
               | c # rest \<Rightarrow> (if c = 45 then (- 1, rest)
                             else if c = 43 then (1, rest) else (1, ds))) = (1::int, ds)"
    using is_digit_not_sign [OF c] by (simp add: ds)
  show ?thesis
    unfolding parseInt_def S by (simp add: sign radix tw fold assms(1) Let_def)
qed

lemma parseInt_toString_nat: "parseInt (toString_nat n) = Some (int n)"
  using parseInt_digits [of "toString_nat n"] toString_nat_digits [of n] by simp

section \<open>Rounding: properties\<close>

text \<open>
  \<open>exponent x\<close> is the exponent of the binade of \<open>x\<close>, and rounding to the nearest integer
  moves a number by at most one half and keeps the integer bounds of the number.
\<close>

lemma bitlen_pos: "0 < m \<Longrightarrow> 1 \<le> bitlen m"
  using bitlen_eq_zero_iff [of m] bitlen_nonneg [of m] by linarith

lemma real_pow2_le: "2 ^ k \<le> (m::int) \<Longrightarrow> (2::real) ^ k \<le> real_of_int m"
  by (metis of_int_le_iff of_int_numeral of_int_power)

lemma real_le_pow2: "(m::int) \<le> 2 ^ k \<Longrightarrow> real_of_int m \<le> (2::real) ^ k"
  by (metis of_int_le_iff of_int_numeral of_int_power)

lemma exponent_bounds:
  assumes "x \<noteq> 0"
  shows "2 powi exponent x \<le> \<bar>x\<bar> \<and> \<bar>x\<bar> < 2 powi (exponent x + 1)"
proof (cases "1 \<le> \<bar>x\<bar>")
  case True
  define m where "m = \<lfloor>\<bar>x\<bar>\<rfloor>"
  have m: "0 < m" unfolding m_def using True by linarith
  have e: "exponent x = bitlen m - 1" using True by (simp add: exponent_def m_def)
  have b: "1 \<le> bitlen m" using m by (rule bitlen_pos)
  have lo: "2 ^ nat (bitlen m - 1) \<le> m" and hi: "m < 2 ^ nat (bitlen m)"
    using bitlen_bounds [OF m] by simp_all
  have "(2::real) ^ nat (bitlen m - 1) \<le> real_of_int m" using lo by (rule real_pow2_le)
  moreover have "real_of_int m \<le> \<bar>x\<bar>" unfolding m_def by simp
  ultimately have "(2::real) ^ nat (bitlen m - 1) \<le> \<bar>x\<bar>" by linarith
  then have 1: "2 powi exponent x \<le> \<bar>x\<bar>"
    unfolding e using b by (simp add: power_int_nonneg_exp)
  have "m + 1 \<le> 2 ^ nat (bitlen m)" using hi by simp
  then have "real_of_int (m + 1) \<le> (2::real) ^ nat (bitlen m)" by (rule real_le_pow2)
  moreover have "\<bar>x\<bar> < real_of_int (m + 1)" unfolding m_def by simp
  ultimately have "\<bar>x\<bar> < (2::real) ^ nat (bitlen m)" by linarith
  then have 2: "\<bar>x\<bar> < 2 powi (exponent x + 1)"
    unfolding e using b by (simp add: power_int_nonneg_exp)
  show ?thesis using 1 2 by simp
next
  case False
  define y where "y = 1 / \<bar>x\<bar>"
  define m where "m = \<lceil>y\<rceil> - 1"
  have x0: "0 < \<bar>x\<bar>" using assms by simp
  have y1: "1 < y" unfolding y_def using False x0 by simp
  have m: "0 < m" unfolding m_def using y1 by linarith
  have my: "real_of_int m < y" unfolding m_def by linarith
  have ym: "y \<le> real_of_int (m + 1)" unfolding m_def by simp
  have e: "exponent x = - bitlen m" using False by (simp add: exponent_def m_def y_def)
  have b: "1 \<le> bitlen m" using m by (rule bitlen_pos)
  have lo: "2 ^ nat (bitlen m - 1) \<le> m" and hi: "m < 2 ^ nat (bitlen m)"
    using bitlen_bounds [OF m] by simp_all
  have "m + 1 \<le> 2 ^ nat (bitlen m)" using hi by simp
  then have "real_of_int (m + 1) \<le> (2::real) ^ nat (bitlen m)" by (rule real_le_pow2)
  then have "y \<le> 2 ^ nat (bitlen m)" using ym by linarith
  then have "1 \<le> 2 ^ nat (bitlen m) * \<bar>x\<bar>"
    unfolding y_def using x0 by (simp add: field_simps)
  then have "1 / 2 ^ nat (bitlen m) \<le> \<bar>x\<bar>" by (simp add: field_simps)
  moreover have "2 powi (- bitlen m) = (1::real) / 2 ^ nat (bitlen m)"
    using b by (simp add: power_int_minus_divide power_int_nonneg_exp)
  ultimately have 1: "2 powi exponent x \<le> \<bar>x\<bar>" unfolding e by simp
  have "(2::real) ^ nat (bitlen m - 1) \<le> real_of_int m" using lo by (rule real_pow2_le)
  then have "2 ^ nat (bitlen m - 1) < y" using my by linarith
  then have "2 ^ nat (bitlen m - 1) * \<bar>x\<bar> < 1"
    unfolding y_def using x0 by (simp add: field_simps)
  then have "\<bar>x\<bar> < 1 / 2 ^ nat (bitlen m - 1)" by (simp add: field_simps)
  moreover have "2 powi (- bitlen m + 1) = (1::real) / 2 ^ nat (bitlen m - 1)"
  proof -
    have "- bitlen m + 1 = - (bitlen m - 1)" by simp
    then show ?thesis
      using b by (simp only: power_int_minus_divide) (simp add: power_int_nonneg_exp)
  qed
  ultimately have 2: "\<bar>x\<bar> < 2 powi (exponent x + 1)" unfolding e by simp
  show ?thesis using 1 2 by simp
qed

lemma roundTiesToEven_cases:
  "roundTiesToEven t = \<lfloor>t\<rfloor> \<and> t - real_of_int \<lfloor>t\<rfloor> \<le> 1 / 2 \<or>
   roundTiesToEven t = \<lfloor>t\<rfloor> + 1 \<and> 1 / 2 \<le> t - real_of_int \<lfloor>t\<rfloor>"
  unfolding roundTiesToEven_def Let_def by simp

lemma roundTiesToEven_error: "\<bar>real_of_int (roundTiesToEven t) - t\<bar> \<le> 1 / 2"
proof -
  define f where "f = \<lfloor>t\<rfloor>"
  have fl: "real_of_int f \<le> t" and fu: "t < real_of_int f + 1" unfolding f_def by linarith+
  have "roundTiesToEven t = f \<and> t - real_of_int f \<le> 1 / 2 \<or>
        roundTiesToEven t = f + 1 \<and> 1 / 2 \<le> t - real_of_int f"
    unfolding f_def by (rule roundTiesToEven_cases)
  then show ?thesis
  proof
    assume "roundTiesToEven t = f \<and> t - real_of_int f \<le> 1 / 2"
    then show ?thesis using fl by (simp only: abs_le_iff) linarith
  next
    assume c: "roundTiesToEven t = f + 1 \<and> 1 / 2 \<le> t - real_of_int f"
    then have "real_of_int (roundTiesToEven t) = real_of_int f + 1" by simp
    then show ?thesis using c fu by (simp only: abs_le_iff) linarith
  qed
qed

lemma roundTiesToEven_le: "t \<le> real_of_int k \<Longrightarrow> roundTiesToEven t \<le> k"
proof -
  assume a: "t \<le> real_of_int k"
  then have f: "\<lfloor>t\<rfloor> \<le> k" by (simp add: floor_le_iff)
  show ?thesis
  proof (cases "\<lfloor>t\<rfloor> = k")
    case True
    then have "t = real_of_int \<lfloor>t\<rfloor>" using a by (metis of_int_floor_le order_antisym)
    then show ?thesis using roundTiesToEven_cases [of t] True by auto
  next
    case False
    then have "\<lfloor>t\<rfloor> + 1 \<le> k" using f by simp
    then show ?thesis using roundTiesToEven_cases [of t] by auto
  qed
qed

lemma roundTiesToEven_ge: "real_of_int k \<le> t \<Longrightarrow> k \<le> roundTiesToEven t"
proof -
  assume "real_of_int k \<le> t"
  then have "k \<le> \<lfloor>t\<rfloor>" by (simp add: le_floor_iff)
  then show ?thesis using roundTiesToEven_cases [of t] by auto
qed


lemma pow2_less_imp: "(2::real) powi a < 2 powi b \<Longrightarrow> a < b"
  by (rule ccontr) (use power_int_increasing [of b a "2::real"] in auto)

lemma pow2_mono: "a \<le> b \<Longrightarrow> (2::real) powi a \<le> 2 powi b"
  by (rule power_int_increasing) simp_all

lemma pow2_add: "(2::real) powi (a + b) = 2 powi a * 2 powi b"
  by (rule power_int_add) simp

lemma pow2_nat: "0 \<le> a \<Longrightarrow> (2::real) powi a = real_of_int (2 ^ nat a)"
  by (simp add: power_int_nonneg_exp)

text \<open>The rounded value of a number that is not zero, and its distance from the number.\<close>

lemma round_to_binary_pos:
  "x \<noteq> 0 \<Longrightarrow> round_to_binary p emin x =
     real_of_int (roundTiesToEven (x / 2 powi (max (exponent x) emin - int p + 1))) *
       2 powi (max (exponent x) emin - int p + 1)"
  by (simp add: round_to_binary_def Let_def)

lemma round_to_binary_nonneg:
  assumes "0 \<le> x"
  shows "0 \<le> round_to_binary p emin x"
proof (cases "x = 0")
  case True
  then show ?thesis by (simp add: round_to_binary_def)
next
  case False
  define q :: real where "q = 2 powi (max (exponent x) emin - int p + 1)"
  have q: "0 < q" unfolding q_def by simp
  have "real_of_int 0 \<le> x / q" using assms q by simp
  then have "0 \<le> roundTiesToEven (x / q)" by (rule roundTiesToEven_ge)
  then have "0 \<le> real_of_int (roundTiesToEven (x / q)) * q" using q by simp
  then show ?thesis unfolding round_to_binary_pos [OF False] q_def .
qed

lemma round_to_binary_error:
  assumes "2 powi emin \<le> x"
  shows "\<bar>round_to_binary p emin x - x\<bar> \<le> x * 2 powi (- int p)"
proof -
  have x0: "0 < x" using assms zero_less_power_int [of "2::real" emin] by linarith
  then have xn: "x \<noteq> 0" by simp
  have b: "2 powi exponent x \<le> x" "x < 2 powi (exponent x + 1)"
    using exponent_bounds [OF xn] x0 by simp_all
  have "(2::real) powi emin < 2 powi (exponent x + 1)" using assms b(2) by linarith
  then have "emin < exponent x + 1" by (rule pow2_less_imp)
  then have e: "max (exponent x) emin = exponent x" by simp
  define q :: real where "q = 2 powi (exponent x - int p + 1)"
  have q: "0 < q" unfolding q_def by simp
  have r: "round_to_binary p emin x = real_of_int (roundTiesToEven (x / q)) * q"
    unfolding round_to_binary_pos [OF xn] e q_def ..
  have "\<bar>real_of_int (roundTiesToEven (x / q)) - x / q\<bar> \<le> 1 / 2"
    by (rule roundTiesToEven_error)
  then have "\<bar>real_of_int (roundTiesToEven (x / q)) - x / q\<bar> * q \<le> 1 / 2 * q"
    using q by (simp only: mult_le_cancel_right_pos)
  moreover have "\<bar>real_of_int (roundTiesToEven (x / q)) - x / q\<bar> * q =
                 \<bar>real_of_int (roundTiesToEven (x / q)) * q - x\<bar>"
  proof -
    have "\<bar>real_of_int (roundTiesToEven (x / q)) - x / q\<bar> * q =
          \<bar>(real_of_int (roundTiesToEven (x / q)) - x / q) * q\<bar>"
      using q by (simp add: abs_mult)
    also have "(real_of_int (roundTiesToEven (x / q)) - x / q) * q =
               real_of_int (roundTiesToEven (x / q)) * q - x"
      using q by (simp add: field_simps)
    finally show ?thesis .
  qed
  ultimately have err: "\<bar>round_to_binary p emin x - x\<bar> \<le> q / 2" unfolding r by simp
  have eq1: "exponent x - int p + 1 = exponent x + (- int p + 1)" by simp
  have "q = 2 powi exponent x * (2 powi (- int p) * 2 powi 1)"
    unfolding q_def eq1 pow2_add ..
  then have "q / 2 = 2 powi exponent x * 2 powi (- int p)" by simp
  also have "\<dots> \<le> x * 2 powi (- int p)"
    using b(1) by (simp add: mult_right_mono)
  finally show ?thesis using err by linarith
qed

lemma round_to_binary_le_pow2:
  assumes "0 \<le> x" and "x \<le> 2 powi k" and "emin \<le> k" and "0 < p"
  shows "round_to_binary p emin x \<le> 2 powi k"
proof (cases "x = 0")
  case True
  then show ?thesis by (simp add: round_to_binary_def)
next
  case False
  then have x0: "0 < x" using assms(1) by simp
  have b: "2 powi exponent x \<le> x" "x < 2 powi (exponent x + 1)"
    using exponent_bounds [OF False] x0 by simp_all
  have "exponent x \<le> k"
  proof (rule ccontr)
    assume "\<not> exponent x \<le> k"
    then have "k + 1 \<le> exponent x" by simp
    then have "(2::real) powi (k + 1) \<le> 2 powi exponent x" by (rule pow2_mono)
    moreover have "(2::real) powi k < 2 powi (k + 1)" by (simp add: pow2_add)
    ultimately show False using b(1) assms(2) by linarith
  qed
  then have e: "max (exponent x) emin \<le> k" using assms(3) by simp
  define e' where "e' = max (exponent x) emin"
  define q :: real where "q = 2 powi (e' - int p + 1)"
  define N where "N = k - e' + int p - 1"
  have q: "0 < q" unfolding q_def by simp
  have e'k: "e' \<le> k" unfolding e'_def by (rule e)
  have p1: "1 \<le> int p" using assms(4) by simp
  have N: "0 \<le> N" unfolding N_def using e'k p1 by linarith
  have kq: "(2::real) powi k = 2 powi N * q"
  proof -
    have "N + (e' - int p + 1) = k" unfolding N_def by simp
    then have "(2::real) powi (N + (e' - int p + 1)) = 2 powi k"
      by (rule arg_cong)
    then show ?thesis unfolding q_def pow2_add by (rule sym)
  qed
  have r: "round_to_binary p emin x = real_of_int (roundTiesToEven (x / q)) * q"
    unfolding round_to_binary_pos [OF False] q_def e'_def ..
  have "x / q \<le> 2 powi N" using assms(2) q unfolding kq by (simp add: field_simps)
  then have "x / q \<le> real_of_int (2 ^ nat N)" using N by (simp only: pow2_nat)
  then have "roundTiesToEven (x / q) \<le> 2 ^ nat N" by (rule roundTiesToEven_le)
  then have "real_of_int (roundTiesToEven (x / q)) \<le> real_of_int (2 ^ nat N)"
    by (simp only: of_int_le_iff)
  then have "real_of_int (roundTiesToEven (x / q)) \<le> 2 powi N" using N by (simp only: pow2_nat)
  then have "real_of_int (roundTiesToEven (x / q)) * q \<le> 2 powi N * q"
    using q by (simp only: mult_le_cancel_right_pos)
  then show ?thesis unfolding r kq .
qed

lemma round_to_binary_ge_pow2:
  assumes "2 powi k \<le> x" and "emin \<le> k" and "0 < p"
  shows "2 powi k \<le> round_to_binary p emin x"
proof -
  have x0: "0 < x" using assms(1) zero_less_power_int [of "2::real" k] by linarith
  then have xn: "x \<noteq> 0" by simp
  have b: "2 powi exponent x \<le> x" "x < 2 powi (exponent x + 1)"
    using exponent_bounds [OF xn] x0 by simp_all
  have "(2::real) powi k < 2 powi (exponent x + 1)" using assms(1) b(2) by linarith
  then have "k < exponent x + 1" by (rule pow2_less_imp)
  then have ke: "k \<le> exponent x" by simp
  then have e: "max (exponent x) emin = exponent x" using assms(2) by simp
  define q :: real where "q = 2 powi (exponent x - int p + 1)"
  define N where "N = int p - 1"
  have q: "0 < q" unfolding q_def by simp
  have N: "0 \<le> N" unfolding N_def using assms(3) by simp
  have eq: "(2::real) powi exponent x = 2 powi N * q"
  proof -
    have "N + (exponent x - int p + 1) = exponent x" unfolding N_def by simp
    then have "(2::real) powi (N + (exponent x - int p + 1)) = 2 powi exponent x"
      by (rule arg_cong)
    then show ?thesis unfolding q_def pow2_add by (rule sym)
  qed
  have r: "round_to_binary p emin x = real_of_int (roundTiesToEven (x / q)) * q"
    unfolding round_to_binary_pos [OF xn] e q_def ..
  have "2 powi N \<le> x / q" using b(1) q unfolding eq by (simp add: field_simps)
  then have "real_of_int (2 ^ nat N) \<le> x / q" using N by (simp only: pow2_nat)
  then have "2 ^ nat N \<le> roundTiesToEven (x / q)" by (rule roundTiesToEven_ge)
  then have "real_of_int (2 ^ nat N) \<le> real_of_int (roundTiesToEven (x / q))"
    by (simp only: of_int_le_iff)
  then have "2 powi N \<le> real_of_int (roundTiesToEven (x / q))" using N by (simp only: pow2_nat)
  then have "2 powi N * q \<le> real_of_int (roundTiesToEven (x / q)) * q"
    using q by (simp only: mult_le_cancel_right_pos)
  then have "2 powi exponent x \<le> round_to_binary p emin x" unfolding r eq .
  moreover have "(2::real) powi k \<le> 2 powi exponent x" using ke by (rule pow2_mono)
  ultimately show ?thesis by linarith
qed


text \<open>The facts about rounding to double precision that the audio code needs.\<close>

lemma round64_nonneg: "0 \<le> x \<Longrightarrow> 0 \<le> round64 x"
  unfolding round64_def by (rule round_to_binary_nonneg)

lemma round64_zero [simp]: "round64 0 = 0"
  by (simp add: round64_def round_to_binary_def)

lemma round64_error: "2 powi (- 1022) \<le> x \<Longrightarrow> \<bar>round64 x - x\<bar> \<le> x / 2 ^ 53"
proof -
  assume "2 powi (- 1022) \<le> x"
  then have "\<bar>round_to_binary 53 (- 1022) x - x\<bar> \<le> x * 2 powi (- int 53)"
    by (rule round_to_binary_error)
  moreover have "(2::real) powi (- int 53) = 1 / 2 ^ 53"
    by (simp add: power_int_minus_divide)
  ultimately show ?thesis unfolding round64_def by simp
qed

lemma round64_le_pow2:
  "0 \<le> x \<Longrightarrow> x \<le> 2 powi k \<Longrightarrow> - 1022 \<le> k \<Longrightarrow> round64 x \<le> 2 powi k"
  unfolding round64_def by (rule round_to_binary_le_pow2) simp_all

lemma round64_ge_pow2:
  "2 powi k \<le> x \<Longrightarrow> - 1022 \<le> k \<Longrightarrow> 2 powi k \<le> round64 x"
  unfolding round64_def by (rule round_to_binary_ge_pow2) simp_all

lemma fl64_round64:
  assumes "0 \<le> x" and "x \<le> 2 powi 1023"
  shows "fl64 x = Val (round64 x)"
proof -
  have "round64 x \<le> 2 powi 1023" using assms by (rule round64_le_pow2) simp
  moreover have "(2::real) powi 1023 < 2 powi 1024" by (rule power_int_strict_increasing) simp_all
  moreover have "0 \<le> round64 x" using assms(1) by (rule round64_nonneg)
  ultimately have "\<not> 2 powi (1023 + 1) \<le> \<bar>round_to_binary 53 (- 1022) x\<bar>"
    unfolding round64_def by simp
  then show ?thesis by (simp add: fl64_def to_binary_def round64_def Let_def)
qed

lemma fl64_pos_cases:
  assumes "0 < x"
  shows "fl64 x = Val (round64 x) \<or> fl64 x = PInf \<and> 2 powi 1024 \<le> round64 x"
proof -
  have "0 \<le> round64 x" using assms by (intro round64_nonneg) simp
  then show ?thesis using assms by (auto simp: fl64_def to_binary_def round64_def Let_def)
qed

section \<open>Downsampling: properties\<close>

text \<open>
  C9. When the input rate and the output rate are equal, \<open>downsampleBuffer\<close> returns its
  input buffer unchanged, for every buffer and every rate.
\<close>

theorem downsample_identity: "downsampleBuffer buffer r r = Inr buffer"
  by (simp add: downsampleBuffer_def)

text \<open>The inner loop adds up the window and counts it.\<close>

lemma sum_window_closed:
  "0 \<le> j \<Longrightarrow> sum_window buffer nextOffset j (sumv, count) =
     (let w = take (nat (min nextOffset (int (length buffer)) - j)) (drop (nat j) buffer)
      in (foldl fadd sumv w, count + length w))"
proof (induction buffer nextOffset j "(sumv, count)" arbitrary: sumv count rule: sum_window.induct)
  case (1 buffer nextOffset j sumv count)
  show ?case
  proof (cases "j < nextOffset \<and> j < int (length buffer)")
    case True
    let ?m = "min nextOffset (int (length buffer))"
    have jm: "j < ?m" using True by simp
    have n: "nat (?m - j) = Suc (nat (?m - (j + 1)))" using jm by linarith
    have nj: "nat (j + 1) = Suc (nat j)" using "1.prems" by linarith
    have lt: "nat j < length buffer" using True "1.prems" by linarith
    have d: "drop (nat j) buffer = buffer ! nat j # drop (nat (j + 1)) buffer"
      unfolding nj using lt by (simp add: Cons_nth_drop_Suc)
    have r: "read_f32 buffer j = buffer ! nat j" using True "1.prems" by (simp add: read_f32_def)
    have "sum_window buffer nextOffset j (sumv, count) =
          sum_window buffer nextOffset (j + 1) (fadd sumv (read_f32 buffer j), Suc count)"
      using True by (subst sum_window.simps) simp
    also have "\<dots> = (let w = take (nat (?m - (j + 1))) (drop (nat (j + 1)) buffer)
      in (foldl fadd (fadd sumv (read_f32 buffer j)) w, Suc count + length w))"
      using "1.hyps"[OF True] "1.prems" by simp
    finally show ?thesis
      by (simp add: Let_def n d r)
  next
    case False
    then have "nat (min nextOffset (int (length buffer)) - j) = 0 \<or> drop (nat j) buffer = []"
      using "1.prems" by auto
    moreover have "sum_window buffer nextOffset j (sumv, count) = (sumv, count)"
      by (subst sum_window.simps) (use False in auto)
    ultimately show ?thesis by auto
  qed
qed

lemma read_f32_nat: "k < length buffer \<Longrightarrow> read_f32 buffer (int k) = buffer ! k"
  by (simp add: read_f32_def)

lemma window_value_closed:
  assumes "fl64 (real i * ratio) = Val x" and "fl64 ((real i + 1) * ratio) = Val y"
    and "0 \<le> x" and "0 \<le> y"
  shows "window_value buffer ratio i =
     (let lo = nat \<lfloor>x\<rfloor>;
          hi = min (nat \<lfloor>y\<rfloor>) (length buffer);
          w = window buffer lo hi
      in fround (if w = [] then read_f32 buffer (int lo) else float_mean w))"
proof -
  have off0: "0 \<le> \<lfloor>x\<rfloor>" using assms(3) by simp
  have next0: "0 \<le> \<lfloor>y\<rfloor>" using assms(4) by simp
  have len: "nat (min \<lfloor>y\<rfloor> (int (length buffer)) - \<lfloor>x\<rfloor>) =
             min (nat \<lfloor>y\<rfloor>) (length buffer) - nat \<lfloor>x\<rfloor>"
    using off0 next0 by linarith
  let ?w = "window buffer (nat \<lfloor>x\<rfloor>) (min (nat \<lfloor>y\<rfloor>) (length buffer))"
  have sw: "sum_window buffer \<lfloor>y\<rfloor> \<lfloor>x\<rfloor> (Val 0, 0) = (foldl fadd (Val 0) ?w, length ?w)"
    using sum_window_closed [OF off0, of buffer "\<lfloor>y\<rfloor>" "Val 0" 0]
    by (simp add: Let_def len window_def)
  have lo: "int (nat \<lfloor>x\<rfloor>) = \<lfloor>x\<rfloor>" using off0 by simp
  show ?thesis
    unfolding window_value_def assms(1,2) Let_def number.case sw lo
    by (simp add: float_mean_def)
qed

lemma downsample_loop_closed:
  "i \<le> newLength \<Longrightarrow> length result = newLength \<Longrightarrow>
   downsample_loop buffer ratio newLength i result =
     take i result @ map (window_value buffer ratio) [i..<newLength]"
proof (induction buffer ratio newLength i result rule: downsample_loop.induct)
  case (1 buffer ratio newLength i result)
  show ?case
  proof (cases "i < newLength")
    case True
    have "downsample_loop buffer ratio newLength i result =
          downsample_loop buffer ratio newLength (Suc i) (result[i := window_value buffer ratio i])"
      using True by (subst downsample_loop.simps) simp
    also have "\<dots> = take (Suc i) (result[i := window_value buffer ratio i]) @
                     map (window_value buffer ratio) [Suc i..<newLength]"
      using "1.IH" [OF True] True "1.prems" by simp
    also have "take (Suc i) (result[i := window_value buffer ratio i]) =
               take i result @ [window_value buffer ratio i]"
      using True "1.prems" by (simp add: take_Suc_conv_app_nth)
    finally show ?thesis using True by (simp add: upt_conv_Cons)
  next
    case False
    then have "downsample_loop buffer ratio newLength i result = result"
      by (subst downsample_loop.simps) simp
    then show ?thesis using False "1.prems" by simp
  qed
qed

lemma downsampleBuffer_closed:
  assumes "outputRate \<noteq> inputRate" and "outputRate \<noteq> 0"
    and "fl64 (inputRate / outputRate) = Val ratio" and "ratio \<noteq> 0"
    and "fl64 (real (length buffer) / ratio) = Val x"
    and "0 \<le> \<lfloor>x + 1 / 2\<rfloor>" and "\<lfloor>x + 1 / 2\<rfloor> < 2 ^ 51"
  shows "downsampleBuffer buffer inputRate outputRate =
           Inr (map (window_value buffer ratio) [0..<nat \<lfloor>x + 1 / 2\<rfloor>])"
proof -
  let ?n = "nat \<lfloor>x + 1 / 2\<rfloor>"
  have loop: "downsample_loop buffer ratio ?n 0 (replicate ?n (Val 0)) =
              map (window_value buffer ratio) [0..<?n]"
    using downsample_loop_closed [of 0 ?n "replicate ?n (Val 0)" buffer ratio] by simp
  have g: "\<not> (\<lfloor>x + 1 / 2\<rfloor> < 0 \<or> 2 ^ 51 \<le> \<lfloor>x + 1 / 2\<rfloor>)" using assms(6,7) by linarith
  show ?thesis
    unfolding downsampleBuffer_def Let_def assms(3,5) number.case
    using assms(1,2,4) g loop by simp
qed

lemma fl64_zero [simp]: "fl64 0 = Val 0"
  by (simp add: fl64_def to_binary_def round_to_binary_def)

lemma downsample_loop_zero [simp]: "downsample_loop buffer ratio 0 i result = result"
  by (subst downsample_loop.simps) simp

lemma downsampleBuffer_empty:
  assumes "0 < inputRate" and "0 < outputRate" and "inputRate \<noteq> outputRate"
  shows "downsampleBuffer [] inputRate outputRate = Inr []"
proof -
  have q: "0 < inputRate / outputRate" using assms by simp
  have o: "outputRate \<noteq> inputRate" "outputRate \<noteq> 0" using assms by simp_all
  consider (fin) "fl64 (inputRate / outputRate) = Val (round64 (inputRate / outputRate))"
    | (inf) "fl64 (inputRate / outputRate) = PInf"
    using fl64_pos_cases [OF q] by blast
  then show ?thesis
  proof cases
    case fin
    show ?thesis
      unfolding downsampleBuffer_def fin using o by (simp add: Let_def)
  next
    case inf
    show ?thesis
      unfolding downsampleBuffer_def inf using o by simp
  qed
qed

text \<open>
  The bounds that keep the arithmetic of the loop finite and the offsets inside the input:
  for an output index \<open>i\<close> below the rounded length, \<open>(i + 1/2) * ratio\<close> exceeds the length of
  the input by a relative error of rounding at most, and the rounded product \<open>i * ratio\<close>
  stays below the length of the input when the ratio is at least that length divided by
  \<open>2 ^ 51\<close>.
\<close>

lemma pow2_neg2: "(2::real) powi (- 2) = 1 / 4"
  by (simp add: power_int_minus_divide)

lemma pow2_neg50: "(2::real) powi (- 50) = 1 / 2 ^ 50"
  by (simp add: power_int_minus_divide)

lemma output_length_bounds:
  assumes "0 < r" and "real n \<le> 2 ^ 50 * r"
  shows "fl64 (real n / r) = Val (round64 (real n / r))"
    and "0 \<le> \<lfloor>round64 (real n / r) + 1 / 2\<rfloor>"
    and "\<lfloor>round64 (real n / r) + 1 / 2\<rfloor> < 2 ^ 51"
proof -
  have nr0: "0 \<le> real n / r" using assms(1) by simp
  have "real n / r \<le> 2 ^ 50" using assms by (simp add: pos_divide_le_eq)
  then have nr: "real n / r \<le> 2 powi 50" by simp
  have "(2::real) powi 50 \<le> 2 powi 1023" by (rule pow2_mono) simp
  then have "real n / r \<le> 2 powi 1023" using nr by linarith
  then show "fl64 (real n / r) = Val (round64 (real n / r))" using nr0 by (intro fl64_round64)
  have x0: "0 \<le> round64 (real n / r)" using nr0 by (rule round64_nonneg)
  then have "0 \<le> round64 (real n / r) + 1 / 2" by linarith
  then show "0 \<le> \<lfloor>round64 (real n / r) + 1 / 2\<rfloor>" by simp
  have "round64 (real n / r) \<le> 2 powi 50" using nr0 nr by (rule round64_le_pow2) simp
  then have "round64 (real n / r) + 1 / 2 < 2 ^ 51" by simp
  then have "round64 (real n / r) + 1 / 2 < real_of_int (2 ^ 51)" by simp
  then show "\<lfloor>round64 (real n / r) + 1 / 2\<rfloor> < 2 ^ 51" by (simp only: floor_less_iff)
qed

lemma index_bounds:
  assumes "0 < r" and "i < nat \<lfloor>round64 (real n / r) + 1 / 2\<rfloor>"
  shows "(real i + 1 / 2) * r \<le> real n * (1 + 1 / 2 ^ 53)" and "r < 4 * real n"
proof -
  define xL where "xL = round64 (real n / r)"
  have "int i + 1 \<le> \<lfloor>xL + 1 / 2\<rfloor>" using assms(2) unfolding xL_def by linarith
  then have "real_of_int (int i + 1) \<le> xL + 1 / 2" by (simp only: le_floor_iff)
  then have ix: "real i + 1 / 2 \<le> xL" by simp
  have nr0: "0 \<le> real n / r" using assms(1) by simp
  have quarter: "1 / 4 < real n / r"
  proof (rule ccontr)
    assume "\<not> 1 / 4 < real n / r"
    then have "real n / r \<le> 2 powi (- 2)" unfolding pow2_neg2 by simp
    then have "round64 (real n / r) \<le> 2 powi (- 2)" using nr0 by (intro round64_le_pow2) simp_all
    then show False using ix unfolding xL_def pow2_neg2 by simp
  qed
  then have "1 / 4 * r < real n" using assms(1) by (simp add: pos_less_divide_eq)
  then show "r < 4 * real n" by simp
  have "(2::real) powi (- 1022) \<le> 2 powi (- 2)" by (rule pow2_mono) simp
  then have "2 powi (- 1022) \<le> real n / r" using quarter unfolding pow2_neg2 by linarith
  then have "\<bar>xL - real n / r\<bar> \<le> real n / r / 2 ^ 53" unfolding xL_def by (rule round64_error)
  then have "xL \<le> real n / r + real n / r / 2 ^ 53" by linarith
  then have "real i + 1 / 2 \<le> real n / r + real n / r / 2 ^ 53" using ix by linarith
  then have "(real i + 1 / 2) * r \<le> (real n / r + real n / r / 2 ^ 53) * r"
    using assms(1) by (simp only: mult_le_cancel_right_pos)
  moreover have "(real n / r + real n / r / 2 ^ 53) * r = real n * (1 + 1 / 2 ^ 53)"
    using assms(1) by (simp add: field_simps)
  ultimately show "(real i + 1 / 2) * r \<le> real n * (1 + 1 / 2 ^ 53)" by simp
qed

lemma products_finite:
  assumes "0 < r" and "(real i + 1 / 2) * r \<le> real n * (1 + 1 / 2 ^ 53)" and "r < 4 * real n"
    and "n < 2 ^ 53"
  shows "fl64 (real i * r) = Val (round64 (real i * r))"
    and "fl64 ((real i + 1) * r) = Val (round64 ((real i + 1) * r))"
proof -
  have n: "real n < 2 ^ 53" using assms(4) by (metis of_nat_less_iff of_nat_numeral of_nat_power)
  have "real n * (1 + 1 / 2 ^ 53) \<le> real n * 2" by (intro mult_left_mono) simp_all
  then have a: "(real i + 1 / 2) * r \<le> 2 * real n" using assms(2) by linarith
  have "(real i + 1) * r = (real i + 1 / 2) * r + r / 2" by (simp add: algebra_simps)
  then have b: "(real i + 1) * r \<le> 4 * real n" using a assms(3) by linarith
  have "real i * r \<le> (real i + 1) * r" using assms(1) by (simp add: algebra_simps)
  then have c: "real i * r \<le> 4 * real n" using b by linarith
  have "4 * real n \<le> 2 ^ 55" using n by simp
  moreover have "(2::real) ^ 55 = 2 powi 55" by simp
  moreover have "(2::real) powi 55 \<le> 2 powi 1023" by (rule pow2_mono) simp
  ultimately have big: "4 * real n \<le> 2 powi 1023" by linarith
  have "0 \<le> real i * r" using assms(1) by simp
  moreover have "real i * r \<le> 2 powi 1023" using c big by linarith
  ultimately show "fl64 (real i * r) = Val (round64 (real i * r))" by (rule fl64_round64)
  have "0 \<le> (real i + 1) * r" using assms(1) by simp
  moreover have "(real i + 1) * r \<le> 2 powi 1023" using b big by linarith
  ultimately show "fl64 ((real i + 1) * r) = Val (round64 ((real i + 1) * r))" by (rule fl64_round64)
qed

lemma offset_in_range:
  assumes "2 powi (- 50) \<le> r" and "real n \<le> 2 ^ 51 * r" and "0 < n"
    and "(real i + 1 / 2) * r \<le> real n * (1 + 1 / 2 ^ 53)"
  shows "nat \<lfloor>round64 (real i * r)\<rfloor> < n"
proof (cases "i = 0")
  case True
  then show ?thesis using assms(3) by simp
next
  case False
  define u :: real where "u = 1 / 2 ^ 53"
  have u: "0 < u" unfolding u_def by simp
  have r0: "0 < r" using assms(1) zero_less_power_int [of "2::real" "- 50"] by linarith
  have i1: "1 \<le> real i" using False by simp
  have "r \<le> real i * r" using i1 r0 by simp
  moreover have "(2::real) powi (- 1022) \<le> 2 powi (- 50)" by (rule pow2_mono) simp
  ultimately have "2 powi (- 1022) \<le> real i * r" using assms(1) by linarith
  then have "\<bar>round64 (real i * r) - real i * r\<bar> \<le> real i * r / 2 ^ 53" by (rule round64_error)
  then have "round64 (real i * r) \<le> real i * r + real i * r / 2 ^ 53" by linarith
  moreover have "real i * r + real i * r / 2 ^ 53 = real i * r * (1 + u)"
    unfolding u_def by (simp add: algebra_simps)
  ultimately have p: "round64 (real i * r) \<le> real i * r * (1 + u)" by (simp only:)
  have "real n / 2 ^ 51 \<le> r" using assms(2) by (simp add: field_simps)
  then have "2 * real n * u \<le> r / 2" unfolding u_def by simp
  moreover have "real i * r = (real i + 1 / 2) * r - r / 2" by (simp add: algebra_simps)
  moreover have "(real i + 1 / 2) * r \<le> real n * (1 + u)" using assms(4) unfolding u_def .
  ultimately have "real i * r \<le> real n * (1 + u) - 2 * real n * u" by linarith
  also have "\<dots> = real n * (1 - u)" by (simp add: algebra_simps)
  finally have "real i * r \<le> real n * (1 - u)" .
  then have "real i * r * (1 + u) \<le> real n * (1 - u) * (1 + u)"
    using u by (intro mult_right_mono) simp_all
  also have "real n * (1 - u) * (1 + u) = real n - real n * (u * u)" by (simp add: algebra_simps)
  also have "\<dots> < real n" using assms(3) u by simp
  finally have "round64 (real i * r) < real n" using p by linarith
  then have "\<lfloor>round64 (real i * r)\<rfloor> < int n" by (simp add: floor_less_iff)
  moreover have "0 \<le> round64 (real i * r)" using r0 by (intro round64_nonneg) simp
  ultimately show ?thesis by (simp add: nat_less_iff)
qed

lemma ratio_bounds:
  assumes "0 < inputRate" and "0 < outputRate" and "0 < n"
    and "real n * outputRate \<le> 2 ^ 49 * inputRate"
  shows "2 powi (- 50) \<le> round64 (inputRate / outputRate)"
    and "real n \<le> 2 ^ 50 * round64 (inputRate / outputRate)"
proof -
  define q where "q = inputRate / outputRate"
  have nq: "real n \<le> 2 ^ 49 * q"
    unfolding q_def using assms(2,4) by (simp add: field_simps)
  have q0: "0 < q" unfolding q_def using assms(1,2) by simp
  have "1 \<le> real n" using assms(3) by simp
  then have "1 \<le> 2 ^ 49 * q" using nq by linarith
  moreover have "2 ^ 49 * q \<le> 2 ^ 50 * q" using q0 by simp
  ultimately have "1 \<le> 2 ^ 50 * q" by linarith
  then have q50: "2 powi (- 50) \<le> q" unfolding pow2_neg50 by (simp add: field_simps)
  then show "2 powi (- 50) \<le> round64 (inputRate / outputRate)"
    unfolding q_def by (intro round64_ge_pow2) simp_all
  have "(2::real) powi (- 1022) \<le> 2 powi (- 50)" by (rule pow2_mono) simp
  then have "2 powi (- 1022) \<le> q" using q50 by linarith
  then have "\<bar>round64 q - q\<bar> \<le> q / 2 ^ 53" by (rule round64_error)
  then have "q - q / 2 ^ 53 \<le> round64 q" by linarith
  then have "q \<le> 2 * round64 q" using q0 by (simp add: field_simps)
  then have "2 ^ 49 * q \<le> 2 ^ 49 * (2 * round64 q)" by (intro mult_left_mono) simp_all
  moreover have "2 ^ 49 * (2 * round64 q) = 2 ^ 50 * round64 q" by simp
  ultimately have "real n \<le> 2 ^ 50 * round64 q" using nq by linarith
  then show "real n \<le> 2 ^ 50 * round64 (inputRate / outputRate)" unfolding q_def .
qed

lemma overflowed_ratio_length:
  assumes "2 powi 1024 \<le> r" and "n < 2 ^ 53"
  shows "nat \<lfloor>round64 (real n / r) + 1 / 2\<rfloor> = 0"
proof -
  have n: "real n < 2 ^ 53" using assms(2) by (metis of_nat_less_iff of_nat_numeral of_nat_power)
  have "(2::real) powi 55 \<le> 2 powi 1024" by (rule pow2_mono) simp
  then have r: "2 ^ 55 \<le> r" using assms(1) by simp
  have p55: "(2::real) ^ 55 = 4 * 2 ^ 53" "(0::real) < 2 ^ 53" by simp_all
  have r0: "0 < r" using r p55 by linarith
  have "real n * 4 \<le> r" using n r p55 by linarith
  then have "real n / r \<le> 1 / 4" using r0 by (simp add: field_simps)
  then have "real n / r \<le> 2 powi (- 2)" unfolding pow2_neg2 .
  moreover have nr0: "0 \<le> real n / r" using r0 by simp
  ultimately have "round64 (real n / r) \<le> 2 powi (- 2)" by (intro round64_le_pow2) simp_all
  then have "round64 (real n / r) + 1 / 2 < 1" unfolding pow2_neg2 by linarith
  then have "\<lfloor>round64 (real n / r) + 1 / 2\<rfloor> < 1" by (simp add: floor_less_iff)
  then show ?thesis by simp
qed


text \<open>Evaluation of the rounding at numerals.\<close>

lemma powi2: "(2::real) powi k = (if 0 \<le> k then 2 ^ nat k else 1 / 2 ^ nat (- k))"
  by (simp add: power_int_def power_one_over inverse_eq_divide)

lemmas fp_eval = fl64_def to_binary_def round64_def round_to_binary_def exponent_def compute_bitlen
  roundTiesToEven_def Let_def powi2

lemma list2_eqI: "length xs = 2 \<Longrightarrow> xs ! 0 = a \<Longrightarrow> xs ! 1 = b \<Longrightarrow> xs = [a, b]"
  by (cases xs; cases "tl xs") auto

lemma list1_eqI: "length xs = 1 \<Longrightarrow> xs ! 0 = a \<Longrightarrow> xs = [a]"
  by (cases xs) auto

lemma ratio_15_11: "fl64 (15000 / 11000) = Val (6141272219141585 / 4503599627370496)"
  by (simp add: fp_eval)

lemma length_11:
  "fl64 (real (length [Val 0, Val 1, Val 2, Val 3, Val 4, Val 5, Val 6, Val 7, Val 8, Val 9,
                       Val 10, Val 11, Val 12, Val 13, Val 14 :: number]) /
           (6141272219141585 / 4503599627370496)) = Val 11"
  by (simp add: fp_eval)

lemma upt_11: "[0..<11] = [0, 1, 2, 3, 4, 5, 6, 7, 8, 9, 10]"
  by (simp add: upt_rec)

lemma windows_15_11:
  "map (window_value [Val 0, Val 1, Val 2, Val 3, Val 4, Val 5, Val 6, Val 7, Val 8, Val 9,
                      Val 10, Val 11, Val 12, Val 13, Val 14]
          (6141272219141585 / 4503599627370496)) [0, 1, 2, 3, 4, 5, 6, 7, 8, 9, 10] =
     [Val 0, Val 1, Val (5 / 2), Val 4, Val 5, Val (13 / 2), Val 8, Val 9, Val (21 / 2), Val 12, Val 13]"
  by (simp add: window_value_def sum_window.simps read_f32_def fp_eval)

lemma ratio_3: "fl64 (48000 / 16000) = Val 3"
  by (simp add: fp_eval)

lemma length_1:
  "fl64 (real (length [Val (13421773 / 134217728), Val (13421773 / 67108864),
                       Val (5033165 / 16777216)]) / 3) = Val 1"
  by (simp add: fp_eval)

lemma offset_0: "fl64 (real 0 * 3) = Val 0"
  by simp

lemma next_0: "fl64 ((real 0 + 1) * 3) = Val 3"
  by (simp add: fp_eval)

lemma window_tenths:
  "window_value [Val (13421773 / 134217728), Val (13421773 / 67108864), Val (5033165 / 16777216)] 3 0 =
     Val (13421773 / 67108864)"
proof -
  let ?b = "[Val (13421773 / 134217728), Val (13421773 / 67108864), Val (5033165 / 16777216)]"
  have "window_value ?b 3 0 =
     (let lo = nat \<lfloor>0 :: real\<rfloor>;
          hi = min (nat \<lfloor>3 :: real\<rfloor>) (length ?b);
          w = window ?b lo hi
      in fround (if w = [] then read_f32 ?b (int lo) else float_mean w))"
    by (rule window_value_closed [OF offset_0 next_0]) simp_all
  then show ?thesis by (simp add: window_def float_mean_def fp_eval)
qed


text \<open>
  The samples that \<open>downsampleBuffer\<close> returns are not the samples of the specification read
  in exact arithmetic. From 15000 Hz to 11000 Hz the ratio is the double nearest to \<open>15/11\<close>,
  which is below \<open>15/11\<close>, and \<open>11 * ratio\<close> rounds to a number below 15: for an input of the
  fifteen samples 0 to 14, the window of output sample 10 ends before index 14 and holds
  the input sample 13 alone, where \<open>\<lfloor>11 * (15/11)\<rfloor> = 15\<close> gives the window of the samples 13
  and 14, with mean 13.5. From 48000 Hz to 16000 Hz the single-precision samples nearest to
  0.1, 0.2 and 0.3 give the single-precision number nearest to their mean, which is not
  their mean.
\<close>

theorem downsample_exact_window_counterexample:
  "downsampleBuffer [Val 0, Val 1, Val 2, Val 3, Val 4, Val 5, Val 6, Val 7, Val 8, Val 9,
                     Val 10, Val 11, Val 12, Val 13, Val 14] 15000 11000 =
     Inr [Val 0, Val 1, Val (5 / 2), Val 4, Val 5, Val (13 / 2), Val 8, Val 9, Val (21 / 2),
          Val 12, Val 13] \<and>
   exact_sample [Val 0, Val 1, Val 2, Val 3, Val 4, Val 5, Val 6, Val 7, Val 8, Val 9,
                 Val 10, Val 11, Val 12, Val 13, Val 14] 15000 11000 10 = Val (27 / 2) \<and>
   downsampleBuffer [Val (13421773 / 134217728), Val (13421773 / 67108864), Val (5033165 / 16777216)]
     48000 16000 = Inr [Val (13421773 / 67108864)] \<and>
   exact_sample [Val (13421773 / 134217728), Val (13421773 / 67108864), Val (5033165 / 16777216)]
     48000 16000 0 = Val (80530639 / 402653184)"
proof -
  let ?a = "[Val 0, Val 1, Val 2, Val 3, Val 4, Val 5, Val 6, Val 7, Val 8, Val 9,
             Val 10, Val 11, Val 12, Val 13, Val 14]"
  have "downsampleBuffer ?a 15000 11000 =
          Inr (map (window_value ?a (6141272219141585 / 4503599627370496))
                 [0..<nat \<lfloor>11 + 1 / 2 :: real\<rfloor>])"
    using ratio_15_11 length_11 by (intro downsampleBuffer_closed) simp_all
  moreover have "nat \<lfloor>11 + 1 / 2 :: real\<rfloor> = 11" by simp
  ultimately have "downsampleBuffer ?a 15000 11000 =
          Inr (map (window_value ?a (6141272219141585 / 4503599627370496))
                 [0, 1, 2, 3, 4, 5, 6, 7, 8, 9, 10])"
    by (simp only: upt_11)
  then have A: "downsampleBuffer ?a 15000 11000 =
     Inr [Val 0, Val 1, Val (5 / 2), Val 4, Val 5, Val (13 / 2), Val 8, Val 9, Val (21 / 2),
          Val 12, Val 13]"
    by (simp only: windows_15_11)
  have B: "exact_sample ?a 15000 11000 10 = Val (27 / 2)"
    by (simp add: exact_sample_def window_def arithmetic_mean_def)
  let ?b = "[Val (13421773 / 134217728), Val (13421773 / 67108864), Val (5033165 / 16777216)]"
  have "downsampleBuffer ?b 48000 16000 =
          Inr (map (window_value ?b 3) [0..<nat \<lfloor>1 + 1 / 2 :: real\<rfloor>])"
    using ratio_3 length_1 by (intro downsampleBuffer_closed) simp_all
  moreover have "nat \<lfloor>1 + 1 / 2 :: real\<rfloor> = 1" by simp
  ultimately have "downsampleBuffer ?b 48000 16000 = Inr (map (window_value ?b 3) [0..<1])"
    by simp
  then have C: "downsampleBuffer ?b 48000 16000 = Inr [Val (13421773 / 67108864)]"
    using window_tenths by simp
  have D: "exact_sample ?b 48000 16000 0 = Val (80530639 / 402653184)"
    by (simp add: exact_sample_def window_def arithmetic_mean_def)
  show ?thesis using A B C D by simp
qed


lemma float32_small [simp]:
  "is_float32 (Val 1)" "is_float32 (Val 2)" "is_float32 (Val 3)" "is_float32 (Val 4)"
  "is_float32 (Val 5)" "is_float32 (Val 6)"
  by (simp_all add: is_float32_def fp_eval)

lemma float32_tenths:
  "is_float32 (Val (13421773 / 134217728))" "is_float32 (Val (13421773 / 67108864))"
  "is_float32 (Val (5033165 / 16777216))"
  by (simp_all add: is_float32_def fp_eval)

lemma round64_3: "round64 (48000 / 16000) = 3"
  by (simp add: fp_eval)

lemma round64_half: "round64 (8000 / 16000) = 1 / 2"
  by (simp add: fp_eval)

lemma float32_7_9: "is_float32 (Val 7)" "is_float32 (Val 9)"
  by (simp_all add: is_float32_def fp_eval)

lemma list4_eqI:
  "length xs = 4 \<Longrightarrow> xs ! 0 = a \<Longrightarrow> xs ! 1 = b \<Longrightarrow> xs ! 2 = c \<Longrightarrow> xs ! 3 = d \<Longrightarrow>
   xs = [a, b, c, d]"
  by (cases xs; cases "tl xs"; cases "tl (tl xs)"; cases "tl (tl (tl xs))") auto


text \<open>
  C5. For positive rates that differ, an input of single-precision samples with fewer than
  \<open>2 ^ 53\<close> samples, and an exact output length \<open>buffer.length * outputRate / inputRate\<close> of at
  most \<open>2 ^ 49\<close>, \<open>downsampleBuffer\<close> returns an array of \<open>Math.round (buffer.length / ratio)\<close>
  samples, where \<open>ratio\<close> is the quotient \<open>inputRate / outputRate\<close> rounded to double precision
  and the quotient \<open>buffer.length / ratio\<close> is rounded to double precision. Its sample \<open>i\<close> is
  the mean of the input samples at the indices from \<open>\<lfloor>i * ratio\<rfloor>\<close> up to and excluding
  \<open>\<lfloor>(i + 1) * ratio\<rfloor>\<close>, clipped to the length of the input, where the two products are
  rounded to double precision and the mean is computed in floating-point arithmetic
  (\<open>float_mean\<close>) and rounded to single precision; when no index is in that window, it is
  the input sample at index \<open>\<lfloor>i * ratio\<rfloor>\<close>, which is inside the input.
\<close>

theorem downsample_window_mean:
  assumes "0 < inputRate" and "0 < outputRate" and "inputRate \<noteq> outputRate"
    and "length buffer < 2 ^ 53" and "real (length buffer) * outputRate \<le> 2 ^ 49 * inputRate"
    and "list_all is_float32 buffer"
  shows "\<exists>result. downsampleBuffer buffer inputRate outputRate = Inr result \<and>
           length result =
             nat \<lfloor>round64 (real (length buffer) / round64 (inputRate / outputRate)) + 1 / 2\<rfloor> \<and>
           (\<forall>i < length result.
              let ratio = round64 (inputRate / outputRate);
                  lo = nat \<lfloor>round64 (real i * ratio)\<rfloor>;
                  hi = min (nat \<lfloor>round64 ((real i + 1) * ratio)\<rfloor>) (length buffer);
                  w = window buffer lo hi
              in lo < length buffer \<and>
                 result ! i = (if w = [] then buffer ! lo else fround (float_mean w)))"
proof (cases "buffer = []")
  case True
  have "downsampleBuffer buffer inputRate outputRate = Inr []"
    unfolding True using assms(1-3) by (rule downsampleBuffer_empty)
  then show ?thesis using True by simp
next
  case False
  define r where "r = round64 (inputRate / outputRate)"
  define n where "n = length buffer"
  have n0: "0 < n" unfolding n_def using False by simp
  have n53: "n < 2 ^ 53" unfolding n_def by (rule assms(4))
  have r50: "2 powi (- 50) \<le> r" and nr50: "real n \<le> 2 ^ 50 * r"
    unfolding r_def using ratio_bounds [OF assms(1,2) n0] assms(5) unfolding n_def by blast+
  have r0: "0 < r" using r50 zero_less_power_int [of "2::real" "- 50"] by linarith
  have "2 ^ 50 * r \<le> 2 ^ 51 * r" using r0 by simp
  then have nr: "real n \<le> 2 ^ 51 * r" using nr50 by linarith
  have q: "0 < inputRate / outputRate" using assms(1,2) by simp
  have o: "outputRate \<noteq> inputRate" "outputRate \<noteq> 0" using assms(2,3) by simp_all
  consider (fin) "fl64 (inputRate / outputRate) = Val r"
    | (inf) "fl64 (inputRate / outputRate) = PInf" "2 powi 1024 \<le> r"
    using fl64_pos_cases [OF q] unfolding r_def by blast
  then show ?thesis
  proof cases
    case inf
    have "downsampleBuffer buffer inputRate outputRate = Inr []"
      unfolding downsampleBuffer_def inf(1) using o by simp
    moreover have "nat \<lfloor>round64 (real n / r) + 1 / 2\<rfloor> = 0"
      using inf(2) n53 by (rule overflowed_ratio_length)
    ultimately show ?thesis unfolding r_def n_def by simp
  next
    case fin
    define L where "L = nat \<lfloor>round64 (real n / r) + 1 / 2\<rfloor>"
    have len: "fl64 (real (length buffer) / r) = Val (round64 (real n / r))"
      "0 \<le> \<lfloor>round64 (real n / r) + 1 / 2\<rfloor>" "\<lfloor>round64 (real n / r) + 1 / 2\<rfloor> < 2 ^ 51"
      using output_length_bounds [OF r0 nr50] unfolding n_def by blast+
    have res: "downsampleBuffer buffer inputRate outputRate =
                 Inr (map (window_value buffer r) [0..<L])"
      unfolding L_def using o fin r0 len by (intro downsampleBuffer_closed) simp_all
    have elems: "let ratio = r;
                  lo = nat \<lfloor>round64 (real i * ratio)\<rfloor>;
                  hi = min (nat \<lfloor>round64 ((real i + 1) * ratio)\<rfloor>) (length buffer);
                  w = window buffer lo hi
              in lo < length buffer \<and>
                 map (window_value buffer r) [0..<L] ! i =
                   (if w = [] then buffer ! lo else fround (float_mean w))"
      if "i < L" for i
    proof -
      have b: "(real i + 1 / 2) * r \<le> real n * (1 + 1 / 2 ^ 53)" "r < 4 * real n"
        using index_bounds [OF r0, of i n] that unfolding L_def by blast+
      have fin_i: "fl64 (real i * r) = Val (round64 (real i * r))"
        and fin_n: "fl64 ((real i + 1) * r) = Val (round64 ((real i + 1) * r))"
        using products_finite [OF r0 b n53] by blast+
      have x0: "0 \<le> round64 (real i * r)" using r0 by (intro round64_nonneg) simp
      have y0: "0 \<le> round64 ((real i + 1) * r)" using r0 by (intro round64_nonneg) simp
      have lo: "nat \<lfloor>round64 (real i * r)\<rfloor> < length buffer"
        using offset_in_range [OF r50 nr n0 b(1)] unfolding n_def .
      have rd: "read_f32 buffer (int (nat \<lfloor>round64 (real i * r)\<rfloor>)) =
                buffer ! nat \<lfloor>round64 (real i * r)\<rfloor>"
        using lo by (rule read_f32_nat)
      have "buffer ! nat \<lfloor>round64 (real i * r)\<rfloor> \<in> set buffer" using lo by simp
      then have "is_float32 (buffer ! nat \<lfloor>round64 (real i * r)\<rfloor>)"
        using assms(6) by (simp add: list_all_iff)
      then have fr: "fround (buffer ! nat \<lfloor>round64 (real i * r)\<rfloor>) =
                     buffer ! nat \<lfloor>round64 (real i * r)\<rfloor>"
        by (simp add: is_float32_def)
      have "map (window_value buffer r) [0..<L] ! i = window_value buffer r i"
        using that by simp
      then show ?thesis
        unfolding window_value_closed [OF fin_i fin_n x0 y0]
        using lo rd fr by (simp add: Let_def)
    qed
    show ?thesis
      unfolding res r_def [symmetric] n_def [symmetric]
      using elems unfolding n_def L_def by (intro exI [of _ "map (window_value buffer r) [0..<L]"]) (simp add: L_def n_def)
  qed
qed

text \<open>
  The theorem at 48000 Hz to 16000 Hz (windows of three samples), for the samples 1 to 6
  and for the single-precision samples nearest to 0.1, 0.2 and 0.3, and at 8000 Hz to
  16000 Hz (every second window is empty).
\<close>

theorem downsample_window_mean_witness:
  "(0::real) < 48000 \<and> (0::real) < 16000 \<and> (48000::real) \<noteq> 16000 \<and>
   length [Val 1, Val 2, Val 3, Val 4, Val 5, Val 6] < 2 ^ 53 \<and>
   real (length [Val 1, Val 2, Val 3, Val 4, Val 5, Val 6]) * 16000 \<le> 2 ^ 49 * 48000 \<and>
   list_all is_float32 [Val 1, Val 2, Val 3, Val 4, Val 5, Val 6] \<and>
   downsampleBuffer [Val 1, Val 2, Val 3, Val 4, Val 5, Val 6] 48000 16000 = Inr [Val 2, Val 5] \<and>
   list_all is_float32 [Val (13421773 / 134217728), Val (13421773 / 67108864), Val (5033165 / 16777216)] \<and>
   downsampleBuffer [Val (13421773 / 134217728), Val (13421773 / 67108864), Val (5033165 / 16777216)]
     48000 16000 = Inr [Val (13421773 / 67108864)] \<and>
   (0::real) < 8000 \<and> (8000::real) \<noteq> 16000 \<and>
   real (length [Val 7, Val 9]) * 16000 \<le> 2 ^ 49 * 8000 \<and>
   list_all is_float32 [Val 7, Val 9] \<and>
   downsampleBuffer [Val 7, Val 9] 8000 16000 = Inr [Val 7, Val 7, Val 9, Val 9]"
proof -
  let ?b = "[Val 1, Val 2, Val 3, Val 4, Val 5, Val 6]"
  have p: "(0::real) < 48000" "(0::real) < 16000" "(48000::real) \<noteq> 16000" by simp_all
  have h: "length ?b < 2 ^ 53" "real (length ?b) * 16000 \<le> 2 ^ 49 * 48000" "list_all is_float32 ?b"
    by simp_all
  obtain result where r: "downsampleBuffer ?b 48000 16000 = Inr result"
    and len: "length result = nat \<lfloor>round64 (real (length ?b) / round64 (48000 / 16000)) + 1 / 2\<rfloor>"
    and el: "\<forall>i < length result.
              let ratio = round64 (48000 / 16000);
                  lo = nat \<lfloor>round64 (real i * ratio)\<rfloor>;
                  hi = min (nat \<lfloor>round64 ((real i + 1) * ratio)\<rfloor>) (length ?b);
                  w = window ?b lo hi
              in lo < length ?b \<and>
                 result ! i = (if w = [] then ?b ! lo else fround (float_mean w))"
    using downsample_window_mean [OF p h] by blast
  have l2: "length result = 2" unfolding len round64_3 by (simp add: fp_eval)
  have i0: "0 < length result" and i1: "1 < length result" using l2 by simp_all
  have e0: "result ! 0 = Val 2"
    using el [rule_format, OF i0] unfolding round64_3 Let_def
    by (simp add: window_def float_mean_def fp_eval)
  have e1: "result ! 1 = Val 5"
    using el [rule_format, OF i1] unfolding round64_3 Let_def
    by (simp add: window_def float_mean_def fp_eval)
  have A: "downsampleBuffer ?b 48000 16000 = Inr [Val 2, Val 5]"
    using r list2_eqI [OF l2 e0 e1] by simp
  let ?c = "[Val (13421773 / 134217728), Val (13421773 / 67108864), Val (5033165 / 16777216)]"
  have h': "length ?c < 2 ^ 53" "real (length ?c) * 16000 \<le> 2 ^ 49 * 48000" "list_all is_float32 ?c"
    using float32_tenths by simp_all
  obtain res where r': "downsampleBuffer ?c 48000 16000 = Inr res"
    and len': "length res = nat \<lfloor>round64 (real (length ?c) / round64 (48000 / 16000)) + 1 / 2\<rfloor>"
    and el': "\<forall>i < length res.
              let ratio = round64 (48000 / 16000);
                  lo = nat \<lfloor>round64 (real i * ratio)\<rfloor>;
                  hi = min (nat \<lfloor>round64 ((real i + 1) * ratio)\<rfloor>) (length ?c);
                  w = window ?c lo hi
              in lo < length ?c \<and>
                 res ! i = (if w = [] then ?c ! lo else fround (float_mean w))"
    using downsample_window_mean [OF p h'] by blast
  have l1: "length res = 1" unfolding len' round64_3 by (simp add: fp_eval)
  have j0: "0 < length res" using l1 by simp
  have f0: "res ! 0 = Val (13421773 / 67108864)"
    using el' [rule_format, OF j0] unfolding round64_3 Let_def
    by (simp add: window_def float_mean_def fp_eval)
  have B: "downsampleBuffer ?c 48000 16000 = Inr [Val (13421773 / 67108864)]"
    using r' list1_eqI [OF l1 f0] by simp
  let ?d = "[Val 7, Val 9]"
  have p'': "(0::real) < 8000" "(0::real) < 16000" "(8000::real) \<noteq> 16000" by simp_all
  have h'': "length ?d < 2 ^ 53" "real (length ?d) * 16000 \<le> 2 ^ 49 * 8000" "list_all is_float32 ?d"
    using float32_7_9 by simp_all
  obtain res2 where r'': "downsampleBuffer ?d 8000 16000 = Inr res2"
    and len'': "length res2 = nat \<lfloor>round64 (real (length ?d) / round64 (8000 / 16000)) + 1 / 2\<rfloor>"
    and el'': "\<forall>i < length res2.
              let ratio = round64 (8000 / 16000);
                  lo = nat \<lfloor>round64 (real i * ratio)\<rfloor>;
                  hi = min (nat \<lfloor>round64 ((real i + 1) * ratio)\<rfloor>) (length ?d);
                  w = window ?d lo hi
              in lo < length ?d \<and>
                 res2 ! i = (if w = [] then ?d ! lo else fround (float_mean w))"
    using downsample_window_mean [OF p'' h''] by blast
  have l4: "length res2 = 4" unfolding len'' round64_half by (simp add: fp_eval)
  have k0: "0 < length res2" and k1: "1 < length res2" and k2: "2 < length res2"
    and k3: "3 < length res2" using l4 by simp_all
  have g0: "res2 ! 0 = Val 7"
    using el'' [rule_format, OF k0] unfolding round64_half Let_def
    by (simp add: window_def float_mean_def fp_eval)
  have g1: "res2 ! 1 = Val 7"
    using el'' [rule_format, OF k1] unfolding round64_half Let_def
    by (simp add: window_def float_mean_def fp_eval)
  have g2: "res2 ! 2 = Val 9"
    using el'' [rule_format, OF k2] unfolding round64_half Let_def
    by (simp add: window_def float_mean_def fp_eval)
  have g3: "res2 ! 3 = Val 9"
    using el'' [rule_format, OF k3] unfolding round64_half Let_def
    by (simp add: window_def float_mean_def fp_eval)
  have C: "downsampleBuffer ?d 8000 16000 = Inr [Val 7, Val 7, Val 9, Val 9]"
    using r'' list4_eqI [OF l4 g0 g1 g2 g3] by simp
  show ?thesis using p h h' A B p'' h'' C by blast
qed
section \<open>PCM decoding and encoding: properties\<close>

lemma length_int16_view: "length (int16_view data) = length data div 2"
  by (induction data rule: int16_view.induct) simp_all

lemma nth_int16_view:
  "k < length data div 2 \<Longrightarrow>
   int16_view data ! k = push_bit 8 (ucast (data ! (2 * k + 1))) OR ucast (data ! (2 * k))"
proof (induction data arbitrary: k rule: int16_view.induct)
  case (1 lo hi rest)
  then show ?case by (cases k) simp_all
qed simp_all

lemma fill_channel_closed:
  "real (length cd) \<le> frameCount \<Longrightarrow>
   fill_channel dataInt16 numChannels channel frameCount i cd =
     take i cd @ map (\<lambda>i. scaled_int16 dataInt16 (i * numChannels + channel)) [i..<length cd]"
proof (induction dataInt16 numChannels channel frameCount i cd rule: fill_channel.induct)
  case (1 dataInt16 numChannels channel frameCount i cd)
  let ?f = "\<lambda>i. scaled_int16 dataInt16 (i * numChannels + channel)"
  show ?case
  proof (cases "real i < frameCount")
    case True
    have step: "fill_channel dataInt16 numChannels channel frameCount i cd =
          fill_channel dataInt16 numChannels channel frameCount (Suc i) (cd[i := ?f i])"
      using True by (subst fill_channel.simps) simp
    have ih: "fill_channel dataInt16 numChannels channel frameCount (Suc i) (cd[i := ?f i]) =
          take (Suc i) (cd[i := ?f i]) @ map ?f [Suc i..<length cd]"
      using "1.IH" [OF True] "1.prems" by simp
    show ?thesis
    proof (cases "i < length cd")
      case True
      then have "take (Suc i) (cd[i := ?f i]) = take i cd @ [?f i]"
        by (simp add: take_Suc_conv_app_nth)
      then show ?thesis using step ih True by (simp add: upt_conv_Cons)
    next
      case False
      then have "cd[i := ?f i] = cd" by (simp add: list_update_beyond)
      then show ?thesis using step ih False by simp
    qed
  next
    case False
    then have "length cd \<le> i" using "1.prems" by linarith
    moreover have "fill_channel dataInt16 numChannels channel frameCount i cd = cd"
      using False by (subst fill_channel.simps) simp
    ultimately show ?thesis by simp
  qed
qed

lemma frame_index_in_range:
  assumes "0 < numChannels" "channel < numChannels" "i < n div numChannels"
  shows "i * numChannels + channel < (n::nat)"
proof -
  have "Suc i \<le> n div numChannels" using assms(3) by simp
  then have "Suc i * numChannels \<le> n div numChannels * numChannels" by (rule mult_le_mono1)
  also have "\<dots> \<le> n" by simp
  finally show ?thesis using assms(2) by simp
qed

lemma floor_frameCount: "\<lfloor>real n / real m\<rfloor> = int (n div m)"
  by (simp add: floor_divide_of_nat_eq)

lemma processPcmData_closed:
  assumes "even (length data)" and "0 < length data div 2 div numChannels"
    and "0 < numChannels" and "numChannels \<le> maxChannels ctx"
    and "minRate ctx \<le> sampleRate" and "sampleRate \<le> maxRate ctx"
  shows "processPcmData data ctx sampleRate numChannels =
     Inr \<lparr>numberOfChannels = numChannels,
          bufferLength = length data div 2 div numChannels,
          bufferRate = sampleRate,
          channelData =
            map (\<lambda>channel. map (\<lambda>i. scaled_int16 (int16_view data) (i * numChannels + channel))
                                [0..<length data div 2 div numChannels])
                [0..<numChannels]\<rparr>"
proof -
  let ?n = "length data div 2"
  let ?len = "?n div numChannels"
  let ?fc = "real ?n / real numChannels"
  let ?f = "\<lambda>channel i. scaled_int16 (int16_view data) (i * numChannels + channel)"
  have le: "real ?len \<le> ?fc"
    using floor_frameCount [of ?n numChannels] of_int_floor_le [of ?fc] by simp
  have fill: "channel < numChannels \<Longrightarrow>
      fill_channel (int16_view data) numChannels channel ?fc 0
        (replicate numChannels (replicate ?len (Val 0)) ! channel) = map (?f channel) [0..<?len]"
    for channel
    using fill_channel_closed [of "replicate ?len (Val 0)" ?fc "int16_view data" numChannels channel 0] le
    by simp
  have ge: "\<not> ?n < numChannels"
  proof
    assume "?n < numChannels"
    then have "?len = 0" by simp
    then show False using assms(2) by simp
  qed
  show ?thesis
    using assms fill ge
    by (simp add: processPcmData_def Let_def length_int16_view floor_frameCount createBuffer_def)
qed

lemma processPcmData_no_frames:
  assumes "even (length data)" and "length data div 2 div numChannels = 0"
  shows "processPcmData data ctx sampleRate numChannels = Inl NotSupportedError"
proof (cases "numChannels = 0")
  case True
  then show ?thesis using assms by (simp add: processPcmData_def)
next
  case False
  have "nat \<lfloor>real (length (int16_view data)) / real numChannels\<rfloor> = 0"
    using assms by (simp only: length_int16_view floor_frameCount nat_int)
  then show ?thesis
    using assms False by (simp add: processPcmData_def Let_def createBuffer_def)
qed

lemma scaled_int16_at:
  assumes "0 < numChannels" "channel < numChannels" "i < length data div 2 div numChannels"
  shows "scaled_int16 (int16_view data) (i * numChannels + channel) =
         Val (real_of_int (int16_at data (i * numChannels + channel)) / 32768)"
proof -
  have "i * numChannels + channel < length data div 2"
    using frame_index_in_range [of numChannels channel i "length data div 2"] assms by simp
  then show ?thesis
    by (simp add: scaled_int16_def length_int16_view nth_int16_view int16_at_def)
qed

text \<open>
  C2 (amended). A byte sequence of odd length is not truncated: \<open>processPcmData\<close> raises
  \<open>RangeError\<close>. A byte sequence of even length with less than one sample per channel
  raises \<open>NotSupportedError\<close>. Every other byte sequence of even length decodes, for a
  channel count and a rate the context supports: the frame length is
  \<open>byteLength / 2 / channels\<close> (rounded down), and sample \<open>i\<close> of channel \<open>c\<close> is the signed
  16-bit little-endian integer at sample position \<open>i * channels + c\<close>, divided by 32768.
\<close>

theorem processPcmData_decodes:
  "(odd (length data) \<longrightarrow> processPcmData data ctx sampleRate numChannels = Inl RangeError) \<and>
   (even (length data) \<and> length data div 2 div numChannels = 0 \<longrightarrow>
      processPcmData data ctx sampleRate numChannels = Inl NotSupportedError) \<and>
   (even (length data) \<and> 0 < length data div 2 div numChannels \<and>
    0 < numChannels \<and> numChannels \<le> maxChannels ctx \<and>
    minRate ctx \<le> sampleRate \<and> sampleRate \<le> maxRate ctx \<longrightarrow>
      (\<exists>buffer. processPcmData data ctx sampleRate numChannels = Inr buffer \<and>
         numberOfChannels buffer = numChannels \<and>
         bufferLength buffer = length data div 2 div numChannels \<and>
         bufferRate buffer = sampleRate \<and>
         length (channelData buffer) = numChannels \<and>
         (\<forall>channel < numChannels.
            length (channelData buffer ! channel) = bufferLength buffer \<and>
            (\<forall>i < bufferLength buffer.
               channelData buffer ! channel ! i =
                 Val (real_of_int (int16_at data (i * numChannels + channel)) / 32768)))))"
proof (intro conjI impI)
  assume "odd (length data)"
  then show "processPcmData data ctx sampleRate numChannels = Inl RangeError"
    by (simp add: processPcmData_def)
next
  assume "even (length data) \<and> length data div 2 div numChannels = 0"
  then show "processPcmData data ctx sampleRate numChannels = Inl NotSupportedError"
    using processPcmData_no_frames by blast
next
  assume a: "even (length data) \<and> 0 < length data div 2 div numChannels \<and>
    0 < numChannels \<and> numChannels \<le> maxChannels ctx \<and>
    minRate ctx \<le> sampleRate \<and> sampleRate \<le> maxRate ctx"
  then have res: "processPcmData data ctx sampleRate numChannels =
     Inr \<lparr>numberOfChannels = numChannels,
          bufferLength = length data div 2 div numChannels,
          bufferRate = sampleRate,
          channelData =
            map (\<lambda>channel. map (\<lambda>i. scaled_int16 (int16_view data) (i * numChannels + channel))
                                [0..<length data div 2 div numChannels])
                [0..<numChannels]\<rparr>"
    by (intro processPcmData_closed) simp_all
  show "\<exists>buffer. processPcmData data ctx sampleRate numChannels = Inr buffer \<and>
         numberOfChannels buffer = numChannels \<and>
         bufferLength buffer = length data div 2 div numChannels \<and>
         bufferRate buffer = sampleRate \<and>
         length (channelData buffer) = numChannels \<and>
         (\<forall>channel < numChannels.
            length (channelData buffer ! channel) = bufferLength buffer \<and>
            (\<forall>i < bufferLength buffer.
               channelData buffer ! channel ! i =
                 Val (real_of_int (int16_at data (i * numChannels + channel)) / 32768)))"
    unfolding res using a by (simp add: scaled_int16_at)
qed

text \<open>The theorem at three, zero and four bytes.\<close>

theorem processPcmData_decodes_witness:
  "processPcmData [1, 2, 3] standard_ctx 24000 1 = Inl RangeError \<and>
   processPcmData [] standard_ctx 24000 1 = Inl NotSupportedError \<and>
   (\<exists>buffer. processPcmData [0, 64, 0, 192] standard_ctx 24000 1 = Inr buffer \<and>
      bufferLength buffer = 2 \<and> channelData buffer ! 0 = [Val (1 / 2), Val (- 1 / 2)])"
proof -
  have A: "processPcmData [1, 2, 3] standard_ctx 24000 1 = Inl RangeError"
    using processPcmData_decodes [of "[1, 2, 3]" standard_ctx 24000 1] by simp
  have B: "processPcmData [] standard_ctx 24000 1 = Inl NotSupportedError"
    using processPcmData_decodes [of "[]" standard_ctx 24000 1] by simp
  have "\<exists>buffer. processPcmData [0, 64, 0, 192] standard_ctx 24000 1 = Inr buffer \<and>
         numberOfChannels buffer = 1 \<and>
         bufferLength buffer = length [0, 64, 0, 192 :: byte] div 2 div 1 \<and>
         bufferRate buffer = 24000 \<and>
         length (channelData buffer) = 1 \<and>
         (\<forall>channel < 1.
            length (channelData buffer ! channel) = bufferLength buffer \<and>
            (\<forall>i < bufferLength buffer.
               channelData buffer ! channel ! i =
                 Val (real_of_int (int16_at [0, 64, 0, 192] (i * 1 + channel)) / 32768)))"
    using processPcmData_decodes [of "[0, 64, 0, 192]" standard_ctx 24000 1]
    by (simp add: standard_ctx_def)
  then obtain buffer where r: "processPcmData [0, 64, 0, 192] standard_ctx 24000 1 = Inr buffer"
    and len: "bufferLength buffer = 2"
    and l0: "length (channelData buffer ! 0) = bufferLength buffer"
    and el: "\<forall>i < bufferLength buffer.
               channelData buffer ! 0 ! i = Val (real_of_int (int16_at [0, 64, 0, 192] i) / 32768)"
    by auto
  have e0: "channelData buffer ! 0 ! 0 = Val (1 / 2)"
    using el [rule_format, of 0] len by (simp add: int16_at_def)
  have e1: "channelData buffer ! 0 ! 1 = Val (- 1 / 2)"
    using el [rule_format, of 1] len by (simp add: int16_at_def)
  have "channelData buffer ! 0 = [Val (1 / 2), Val (- 1 / 2)]"
    using l0 len e0 e1 by (intro list2_eqI) simp_all
  then show ?thesis using A B r len by simp
qed

lemma le16_roundtrip: "push_bit 8 (ucast (ucast (drop_bit 8 w) :: byte)) OR ucast (ucast w :: byte) = (w :: 16 word)"
  by (rule bit_word_eqI) (auto simp: bit_simps)

lemma int16_view_uint8_view: "int16_view (uint8_view ws) = ws"
  by (induction ws) (simp_all add: uint8_view_def le16_roundtrip)

lemma length_uint8_view: "length (uint8_view ws) = 2 * length ws"
  by (induction ws) (simp_all add: uint8_view_def)

lemma sint_toInt16:
  assumes "- 32768 \<le> x" and "x < 32768"
  shows "sint (toInt16 x) = (if x < 0 then \<lceil>x\<rceil> else \<lfloor>x\<rfloor>)"
proof -
  let ?k = "if x < 0 then \<lceil>x\<rceil> else \<lfloor>x\<rfloor>"
  have lo: "- 32768 \<le> ?k" using assms by (auto simp: le_ceiling_iff le_floor_iff)
  have hi: "?k < 32768" using assms by (auto simp: ceiling_less_iff floor_less_iff)
  have "(?k + 32768) mod 65536 = ?k + 32768"
    using lo hi by (intro mod_pos_pos_trivial) linarith+
  then have "sint (word_of_int ?k :: 16 word) = ?k"
    by (simp add: int_word_sint)
  then show ?thesis by (simp add: toInt16_def)
qed

lemma pcm16_sample_error:
  assumes "- 1 \<le> v" and "v \<le> 1"
  shows "\<bar>v - real_of_int (sint (pcm16_sample (Val v))) / 32768\<bar> < 2 / 32768"
    and "v < 0 \<Longrightarrow> \<bar>v - real_of_int (sint (pcm16_sample (Val v))) / 32768\<bar> < 1 / 32768"
proof -
  have clamp: "max (- 1) (min 1 v) = v" using assms by simp
  show "\<bar>v - real_of_int (sint (pcm16_sample (Val v))) / 32768\<bar> < 2 / 32768"
  proof (cases "v < 0")
    case True
    have "sint (toInt16 (v * 32768)) = \<lceil>v * 32768\<rceil>"
      using sint_toInt16 [of "v * 32768"] assms True by (simp add: mult_less_0_iff)
    then have k: "real_of_int (sint (pcm16_sample (Val v))) = real_of_int \<lceil>v * 32768\<rceil>"
      using True clamp by simp
    have "v * 32768 \<le> real_of_int \<lceil>v * 32768\<rceil>" "real_of_int \<lceil>v * 32768\<rceil> < v * 32768 + 1"
      by linarith+
    then show ?thesis unfolding k abs_less_iff by linarith
  next
    case False
    have "sint (toInt16 (v * 32767)) = \<lfloor>v * 32767\<rfloor>"
      using sint_toInt16 [of "v * 32767"] assms False by (simp add: mult_less_0_iff)
    then have k: "real_of_int (sint (pcm16_sample (Val v))) = real_of_int \<lfloor>v * 32767\<rfloor>"
      using False clamp by simp
    have "real_of_int \<lfloor>v * 32767\<rfloor> \<le> v * 32767" "v * 32767 < real_of_int \<lfloor>v * 32767\<rfloor> + 1"
      by linarith+
    then show ?thesis unfolding k abs_less_iff using assms False by linarith
  qed
  show "\<bar>v - real_of_int (sint (pcm16_sample (Val v))) / 32768\<bar> < 1 / 32768" if "v < 0"
  proof -
    have "sint (toInt16 (v * 32768)) = \<lceil>v * 32768\<rceil>"
      using sint_toInt16 [of "v * 32768"] assms that by (simp add: mult_less_0_iff)
    then have k: "real_of_int (sint (pcm16_sample (Val v))) = real_of_int \<lceil>v * 32768\<rceil>"
      using that clamp by simp
    have "v * 32768 \<le> real_of_int \<lceil>v * 32768\<rceil>" "real_of_int \<lceil>v * 32768\<rceil> < v * 32768 + 1"
      by linarith+
    then show ?thesis unfolding k abs_less_iff by linarith
  qed
qed

lemma in_unit_rangeE: "in_unit_range s \<Longrightarrow> \<exists>v. s = Val v \<and> - 1 \<le> v \<and> v \<le> 1"
  by (cases s) simp_all

text \<open>
  C3 (amended). For a non-empty frame whose samples all lie in \<open>[-1, 1]\<close>, encoding to 16-bit
  PCM and decoding back gives, for every sample, a value less than two quantization steps
  (\<open>2 / 32768\<close>) from the original, and less than one step from a negative original.
\<close>

theorem pcm_roundtrip_two_steps:
  assumes "frame \<noteq> []" and "\<forall>s \<in> set frame. in_unit_range s"
    and "1 \<le> maxChannels ctx" and "minRate ctx \<le> sampleRate" and "sampleRate \<le> maxRate ctx"
  shows "\<exists>buffer. processPcmData (encodeFrameToPcm16 frame) ctx sampleRate 1 = Inr buffer \<and>
           length (channelData buffer ! 0) = length frame \<and>
           (\<forall>i < length frame. \<exists>v y.
              frame ! i = Val v \<and> channelData buffer ! 0 ! i = Val y \<and>
              \<bar>v - y\<bar> < 2 / 32768 \<and> (v < 0 \<longrightarrow> \<bar>v - y\<bar> < 1 / 32768))"
proof -
  let ?data = "encodeFrameToPcm16 frame"
  let ?ws = "map pcm16_sample frame"
  have len: "length ?data div 2 div 1 = length frame"
    by (simp add: encodeFrameToPcm16_def length_uint8_view)
  have view: "int16_view ?data = ?ws"
    by (simp add: encodeFrameToPcm16_def int16_view_uint8_view)
  have len2: "length ?data div 2 = length frame"
    by (simp add: encodeFrameToPcm16_def length_uint8_view)
  have pos: "0 < length ?data div 2 div 1" using assms(1) len by simp
  have ev: "even (length ?data)" by (simp add: encodeFrameToPcm16_def length_uint8_view)
  have res: "processPcmData ?data ctx sampleRate 1 =
     Inr \<lparr>numberOfChannels = 1, bufferLength = length frame, bufferRate = sampleRate,
          channelData = [map (\<lambda>i. scaled_int16 ?ws i) [0..<length frame]]\<rparr>"
    using processPcmData_closed [OF ev pos _ _ assms(4) assms(5)] assms(3)
    by (simp add: view len2)
  have el: "\<exists>v y. frame ! i = Val v \<and> scaled_int16 ?ws i = Val y \<and>
              \<bar>v - y\<bar> < 2 / 32768 \<and> (v < 0 \<longrightarrow> \<bar>v - y\<bar> < 1 / 32768)"
    if i: "i < length frame" for i
  proof -
    have "in_unit_range (frame ! i)" using assms(2) i by simp
    then obtain v where v: "frame ! i = Val v" "- 1 \<le> v" "v \<le> 1"
      using in_unit_rangeE by blast
    let ?y = "real_of_int (sint (pcm16_sample (Val v))) / 32768"
    have "scaled_int16 ?ws i = Val ?y" using i v(1) by (simp add: scaled_int16_def)
    then show ?thesis
      using v pcm16_sample_error [of v] by blast
  qed
  show ?thesis unfolding res using el by simp
qed

text \<open>The theorem at a frame of one positive and one negative sample.\<close>

theorem pcm_roundtrip_two_steps_witness:
  "[Val (65535 / 65536), Val (- 1 / 3)] \<noteq> [] \<and>
   in_unit_range (Val (65535 / 65536)) \<and> in_unit_range (Val (- 1 / 3)) \<and>
   (\<exists>buffer y0 y1.
      processPcmData (encodeFrameToPcm16 [Val (65535 / 65536), Val (- 1 / 3)]) standard_ctx 24000 1
        = Inr buffer \<and>
      channelData buffer ! 0 ! 0 = Val y0 \<and> \<bar>65535 / 65536 - y0\<bar> < 2 / 32768 \<and>
      channelData buffer ! 0 ! 1 = Val y1 \<and> \<bar>- 1 / 3 - y1\<bar> < 1 / 32768)"
proof -
  let ?frame = "[Val (65535 / 65536), Val (- 1 / 3)]"
  have h1: "?frame \<noteq> []" by simp
  have h2: "\<forall>s \<in> set ?frame. in_unit_range s" by simp
  have h3: "1 \<le> maxChannels standard_ctx" "minRate standard_ctx \<le> 24000"
    "24000 \<le> maxRate standard_ctx"
    by (simp_all add: standard_ctx_def)
  obtain buffer where r: "processPcmData (encodeFrameToPcm16 ?frame) standard_ctx 24000 1 = Inr buffer"
    and el: "\<forall>i < length ?frame. \<exists>v y.
              ?frame ! i = Val v \<and> channelData buffer ! 0 ! i = Val y \<and>
              \<bar>v - y\<bar> < 2 / 32768 \<and> (v < 0 \<longrightarrow> \<bar>v - y\<bar> < 1 / 32768)"
    using pcm_roundtrip_two_steps [OF h1 h2 h3] by blast
  obtain v0 y0 where a0: "?frame ! 0 = Val v0" "channelData buffer ! 0 ! 0 = Val y0"
    "\<bar>v0 - y0\<bar> < 2 / 32768"
    using el [rule_format, of 0] by auto
  have v0: "v0 = 65535 / 65536" using a0(1) by simp
  have y0: "channelData buffer ! 0 ! 0 = Val y0" "\<bar>65535 / 65536 - y0\<bar> < 2 / 32768"
    using a0(2) a0(3) [unfolded v0] by blast+
  obtain v1 y1 where a1: "?frame ! 1 = Val v1" "channelData buffer ! 0 ! 1 = Val y1"
    "v1 < 0 \<longrightarrow> \<bar>v1 - y1\<bar> < 1 / 32768"
    using el [rule_format, of 1] by auto
  have v1: "v1 = - 1 / 3" using a1(1) by simp
  have neg: "(- 1 / 3 :: real) < 0" by simp
  have y1: "channelData buffer ! 0 ! 1 = Val y1" "\<bar>- 1 / 3 - y1\<bar> < 1 / 32768"
    using a1(2) a1(3) [unfolded v1] neg by blast+
  have h2': "in_unit_range (Val (65535 / 65536)) \<and> in_unit_range (Val (- 1 / 3))"
    by simp
  show ?thesis using h1 h2' r y0 y1 by blast
qed

text \<open>
  C3 as stated fails: the sample \<open>65535 / 65536\<close> is encoded as 32766 (the bytes 254, 127)
  and decoded as \<open>32766 / 32768\<close>, one and a half steps below the original.
\<close>

theorem pcm_roundtrip_one_step_counterexample:
  "in_unit_range (Val (65535 / 65536)) \<and>
   processPcmData (encodeFrameToPcm16 [Val (65535 / 65536)]) standard_ctx 24000 1 =
     Inr \<lparr>numberOfChannels = 1, bufferLength = 1, bufferRate = 24000,
          channelData = [[Val (32766 / 32768)]]\<rparr> \<and>
   \<not> \<bar>65535 / 65536 - 32766 / 32768\<bar> \<le> (1 / 32768 :: real)"
proof -
  let ?data = "encodeFrameToPcm16 [Val (65535 / 65536)]"
  have d: "?data = [254, 127]"
    by (simp add: encodeFrameToPcm16_def uint8_view_def toInt16_def)
  have "processPcmData [254, 127] standard_ctx 24000 1 =
     Inr \<lparr>numberOfChannels = 1, bufferLength = 1, bufferRate = 24000,
          channelData = [[Val (32766 / 32768)]]\<rparr>"
    using processPcmData_closed [of "[254, 127]" 1 standard_ctx 24000]
    by (simp add: standard_ctx_def scaled_int16_def)
  then show ?thesis unfolding d by simp
qed

text \<open>C2 as stated fails: three bytes are not decoded to one sample, the call raises.\<close>

theorem pcm_odd_length_counterexample:
  "processPcmData [1, 2, 3] standard_ctx 24000 1 = Inl RangeError"
  by (simp add: processPcmData_def)

section \<open>The live session: properties\<close>

lemma scheduled_append: "scheduled (xs @ ys) = scheduled xs @ scheduled ys"
  by (induction xs rule: scheduled.induct) simp_all

lemma onmessage_audio_decodable:
  assumes "supports_playback (outputAudioContext s)" and "decodable c"
  shows "onmessage_audio currentTime (Base64 c) s =
     (None, s\<lparr>nextStartTime := max (nextStartTime s) currentTime + chunk_duration c,
               sources := (if created s \<in> set (sources s) then sources s
                           else sources s @ [created s]),
               created := Suc (created s),
               trace := trace s @ [SourceStart (created s) (max (nextStartTime s) currentTime)
                                     (chunk_duration c)]\<rparr>)"
proof -
  have ev: "even (length c)" and ne: "c \<noteq> []" using assms(2) by (simp_all add: decodable_def)
  have "length c \<noteq> 1" using ev by auto
  then have "2 \<le> length c" using ne by (cases c; cases "tl c") auto
  then have pos: "0 < length c div 2 div 1" by simp
  have ctx: "0 < (1::nat)" "1 \<le> maxChannels (outputAudioContext s)"
    "minRate (outputAudioContext s) \<le> 24000" "24000 \<le> maxRate (outputAudioContext s)"
    using assms(1) by (simp_all add: supports_playback_def)
  have "\<exists>cd. processPcmData c (outputAudioContext s) 24000 (Suc 0) =
     Inr \<lparr>numberOfChannels = Suc 0, bufferLength = length c div 2, bufferRate = 24000,
          channelData = cd\<rparr>"
    using processPcmData_closed [OF ev pos ctx] by simp
  then obtain cd where dec: "processPcmData c (outputAudioContext s) 24000 (Suc 0) =
     Inr \<lparr>numberOfChannels = Suc 0, bufferLength = length c div 2, bufferRate = 24000,
          channelData = cd\<rparr>" ..
  show ?thesis
    unfolding onmessage_audio_def
    by (simp add: dec Let_def emit_def duration_def chunk_duration_def)
qed







text \<open>The invariant \<open>accounted\<close> holds of a new session and is kept by every event.\<close>

lemma started_append: "started (xs @ ys) = started xs @ started ys"
  by (induction xs rule: started.induct) simp_all

lemma started_map_SourceStop [simp]: "started (map SourceStop xs) = []"
  by (induction xs) simp_all

lemma started_map_TrackStop [simp]: "started (map TrackStop xs) = []"
  by (induction xs) simp_all

lemma scheduled_map_SourceStop [simp]: "scheduled (map SourceStop xs) = []"
  by (induction xs) simp_all

lemma scheduled_map_TrackStop [simp]: "scheduled (map TrackStop xs) = []"
  by (induction xs) simp_all

lemma accounted_new_session: "accounted (new_session ctx ts)"
  by (simp add: accounted_def new_session_def)

lemma accounted_onmessage_audio:
  "accounted s \<Longrightarrow> accounted (snd (onmessage_audio currentTime base64Audio s))"
  by (cases base64Audio)
     (auto simp: accounted_def onmessage_audio_def emit_def Let_def started_append split: sum.splits)

lemma accounted_interrupted: "accounted s \<Longrightarrow> accounted (onmessage_interrupted s)"
  by (auto simp: accounted_def onmessage_interrupted_def emit_def started_append)

lemma accounted_source_ended: "accounted s \<Longrightarrow> accounted (source_ended source s)"
  by (auto simp: accounted_def source_ended_def emit_def started_append)

lemma accounted_emit:
  "accounted s \<Longrightarrow> started es = [] \<Longrightarrow> accounted (emit es s)"
  by (auto simp: accounted_def emit_def started_append)

lemma accounted_cleanup: "accounted s \<Longrightarrow> accounted (cleanup s)"
  by (auto simp: accounted_def cleanup_def cleanup_first_def safeCloseAudioContext_def emit_def
      Let_def started_append)

lemma accounted_socket: "accounted (s\<lparr>isSocketOpen := b\<rparr>) = accounted s"
  by (simp add: accounted_def)

lemma accounted_step: "accounted s \<Longrightarrow> accounted (step e s)"
proof (cases e)
  case (Message currentTime base64Audio interrupted)
  assume a: "accounted s"
  obtain r s1 where o: "onmessage_audio currentTime base64Audio s = (r, s1)"
    by (cases "onmessage_audio currentTime base64Audio s")
  have "accounted s1" using accounted_onmessage_audio [OF a, of currentTime base64Audio] o by simp
  then show ?thesis
    using Message o by (cases r) (simp_all add: onmessage_playback_def accounted_interrupted)
next
  case (Ended source)
  assume "accounted s"
  then show ?thesis using Ended by (simp add: accounted_source_ended)
next
  case Disconnect
  assume "accounted s"
  then show ?thesis
    using Disconnect
    by (auto simp: accounted_def disconnect_def cleanup_first_def safeCloseAudioContext_def emit_def
        Let_def started_append)
next
  case Close
  assume "accounted s"
  then show ?thesis
    using Close by (simp add: onclose_def accounted_cleanup accounted_emit accounted_socket)
next
  case (Error x)
  assume "accounted s"
  then show ?thesis using Error by (simp add: onerror_def accounted_cleanup accounted_emit)
qed

lemma accounted_run: "accounted s \<Longrightarrow> accounted (run es s)"
  by (induction es arbitrary: s) (simp_all add: accounted_step)

lemma onmessage_audio_playable:
  assumes "supports_playback (outputAudioContext s)" and "playable audio"
  shows "fst (onmessage_audio t audio s) = None \<and>
         set (sources s) \<subseteq> set (sources (snd (onmessage_audio t audio s))) \<and>
         outputAudioContext (snd (onmessage_audio t audio s)) = outputAudioContext s"
proof (cases audio)
  case NoAudio
  then show ?thesis by (simp add: onmessage_audio_def)
next
  case (Base64 chunk)
  then have "decodable chunk" using assms(2) by simp
  then show ?thesis
    unfolding Base64 by (auto simp: onmessage_audio_decodable [OF assms(1)])
next
  case Malformed
  then show ?thesis using assms(2) by simp
qed

lemma interrupt_message:
  assumes "supports_playback (outputAudioContext s)" and "playable audio"
  shows "step (Message t audio True) s = onmessage_interrupted (snd (onmessage_audio t audio s))"
proof -
  have "fst (onmessage_audio t audio s) = None"
    using onmessage_audio_playable [OF assms] by blast
  then show ?thesis
    by (cases "onmessage_audio t audio s") (simp add: onmessage_playback_def)
qed

lemma plain_message:
  "step (Message t audio False) s = snd (onmessage_audio t audio s)"
proof (cases "onmessage_audio t audio s")
  case (Pair e s1)
  then show ?thesis by (cases e) (simp_all add: onmessage_playback_def)
qed

lemma one_second_played:
  "run [Message 0 (Base64 (replicate 48000 0)) False] (new_session standard_ctx [0]) =
     (new_session standard_ctx [0])\<lparr>nextStartTime := 1, sources := [0], created := 1,
                      trace := [SourceStart 0 0 1]\<rparr>"
proof -
  have ctx0: "supports_playback (outputAudioContext (new_session standard_ctx [0]))"
    by (simp add: new_session_def supports_playback_def standard_ctx_def)
  have d0: "decodable (replicate 48000 0)" by (simp add: decodable_def)
  show ?thesis
    by (simp add: onmessage_playback_def onmessage_audio_decodable [OF ctx0 d0])
       (simp add: new_session_def chunk_duration_def)
qed

text \<open>
  C7. An interrupt is a message with the flag \<open>interrupted\<close>. When the audio of that message
  is playable (there is none, or it is a decodable chunk), the handler \<open>onmessage\<close> leaves
  the set of active sources empty and \<open>nextStartTime\<close> at zero, every source that was in the
  set has been stopped, so that every source ever started has been stopped or has ended
  (also the one the message itself may have started), and a decodable chunk in the next
  message, at a clock reading \<open>currentTime\<close> (which is never negative), starts at
  \<open>currentTime\<close>, whatever \<open>nextStartTime\<close> was before.
\<close>

theorem interrupt_clears_playback:
  assumes "accounted s" and "supports_playback (outputAudioContext s)"
    and "playable audio" and "decodable c" and "0 \<le> currentTime"
  shows "sources (step (Message t audio True) s) = [] \<and>
         nextStartTime (step (Message t audio True) s) = 0 \<and>
         (\<forall>source \<in> set (sources s). SourceStop source \<in> set (trace (step (Message t audio True) s))) \<and>
         (\<forall>source \<in> set (started (trace (step (Message t audio True) s))).
            SourceStop source \<in> set (trace (step (Message t audio True) s)) \<or>
            SourceEnded source \<in> set (trace (step (Message t audio True) s))) \<and>
         scheduled (trace (step (Message currentTime (Base64 c) False) (step (Message t audio True) s))) =
           scheduled (trace (step (Message t audio True) s)) @ [(currentTime, chunk_duration c)]"
proof -
  define s1 where "s1 = snd (onmessage_audio t audio s)"
  define s' where "s' = step (Message t audio True) s"
  have s': "s' = onmessage_interrupted s1"
    unfolding s'_def s1_def using assms(2,3) by (rule interrupt_message)
  have sub: "set (sources s) \<subseteq> set (sources s1)"
    and ctx1: "outputAudioContext s1 = outputAudioContext s"
    unfolding s1_def using onmessage_audio_playable [OF assms(2,3)] by blast+
  have 1: "sources s' = []" unfolding s' by (simp add: onmessage_interrupted_def emit_def)
  have 2: "nextStartTime s' = 0" unfolding s' by (simp add: onmessage_interrupted_def emit_def)
  have "\<forall>source \<in> set (sources s1). SourceStop source \<in> set (trace s')"
    unfolding s' by (simp add: onmessage_interrupted_def emit_def)
  then have 3: "\<forall>source \<in> set (sources s). SourceStop source \<in> set (trace s')"
    using sub by blast
  have "accounted s'" unfolding s'_def using assms(1) by (rule accounted_step)
  then have 4: "\<forall>source \<in> set (started (trace s')).
            SourceStop source \<in> set (trace s') \<or> SourceEnded source \<in> set (trace s')"
    unfolding accounted_def using 1 by simp
  have ctx: "supports_playback (outputAudioContext s')"
    unfolding s' using assms(2) ctx1 by (simp add: onmessage_interrupted_def emit_def)
  have "scheduled (trace (snd (onmessage_audio currentTime (Base64 c) s'))) =
           scheduled (trace s') @ [(currentTime, chunk_duration c)]"
    using assms(5) 2
    by (simp add: onmessage_audio_decodable [OF ctx assms(4)] scheduled_append)
  then have 5: "scheduled (trace (step (Message currentTime (Base64 c) False) s')) =
           scheduled (trace s') @ [(currentTime, chunk_duration c)]"
    by (simp only: plain_message)
  show ?thesis using 1 2 3 4 5 unfolding s'_def by blast
qed

text \<open>
  The theorem at a session that has scheduled one second of audio at clock 0
  (\<open>nextStartTime = 1\<close>) and is interrupted at clock 0.2, before a chunk arrives at clock 0.3.
\<close>

theorem interrupt_clears_playback_witness:
  "accounted (run [Message 0 (Base64 (replicate 48000 0)) False] (new_session standard_ctx [0])) \<and>
   supports_playback
     (outputAudioContext (run [Message 0 (Base64 (replicate 48000 0)) False] (new_session standard_ctx [0]))) \<and>
   playable NoAudio \<and> decodable [0, 64, 0, 192] \<and> (0::real) \<le> 3 / 10 \<and>
   nextStartTime (run [Message 0 (Base64 (replicate 48000 0)) False] (new_session standard_ctx [0])) = 1 \<and>
   sources (run [Message 0 (Base64 (replicate 48000 0)) False] (new_session standard_ctx [0])) = [0] \<and>
   sources (run [Message 0 (Base64 (replicate 48000 0)) False, Message (1 / 5) NoAudio True]
              (new_session standard_ctx [0])) = [] \<and>
   nextStartTime (run [Message 0 (Base64 (replicate 48000 0)) False, Message (1 / 5) NoAudio True]
              (new_session standard_ctx [0])) = 0 \<and>
   SourceStop 0 \<in> set (trace (run [Message 0 (Base64 (replicate 48000 0)) False, Message (1 / 5) NoAudio True]
              (new_session standard_ctx [0]))) \<and>
   scheduled (trace (run [Message 0 (Base64 (replicate 48000 0)) False, Message (1 / 5) NoAudio True,
                          Message (3 / 10) (Base64 [0, 64, 0, 192]) False]
              (new_session standard_ctx [0]))) = [(0, 1), (3 / 10, 1 / 12000)]"
proof -
  let ?s0 = "new_session standard_ctx [0]"
  let ?S = "run [Message 0 (Base64 (replicate 48000 0)) False] ?s0"
  let ?I = "step (Message (1 / 5) NoAudio True) ?S"
  have S: "?S = ?s0\<lparr>nextStartTime := 1, sources := [0], created := 1,
                      trace := [SourceStart 0 0 1]\<rparr>"
    by (rule one_second_played)
  have a: "accounted ?S" by (intro accounted_run accounted_new_session)
  have ctx: "supports_playback (outputAudioContext ?S)"
    unfolding S by (simp add: new_session_def supports_playback_def standard_ctx_def)
  have p: "playable NoAudio" by simp
  have d: "decodable [0, 64, 0, 192]" by (simp add: decodable_def)
  have t: "(0::real) \<le> 3 / 10" by simp
  have n: "nextStartTime ?S = 1" and so: "sources ?S = [0]" unfolding S by simp_all
  note I = interrupt_clears_playback [OF a ctx p d t, of "1 / 5"]
  have 1: "sources ?I = []" using I by blast
  have 2: "nextStartTime ?I = 0" using I by blast
  have "\<forall>source \<in> set (sources ?S). SourceStop source \<in> set (trace ?I)" using I by blast
  then have 3: "SourceStop 0 \<in> set (trace ?I)" unfolding so by simp
  have tr: "scheduled (trace ?I) = [(0, 1)]"
    unfolding S by (simp add: onmessage_playback_def onmessage_audio_def onmessage_interrupted_def
        emit_def scheduled_append new_session_def)
  have "scheduled (trace (step (Message (3 / 10) (Base64 [0, 64, 0, 192]) False) ?I)) =
          scheduled (trace ?I) @ [(3 / 10, chunk_duration [0, 64, 0, 192])]"
    using I by blast
  then have 4: "scheduled (trace (step (Message (3 / 10) (Base64 [0, 64, 0, 192]) False) ?I)) =
          [(0, 1), (3 / 10, 1 / 12000)]"
    unfolding tr by (simp add: chunk_duration_def)
  have r2: "run [Message 0 (Base64 (replicate 48000 0)) False, Message (1 / 5) NoAudio True] ?s0 = ?I"
    by simp
  have r3: "run [Message 0 (Base64 (replicate 48000 0)) False, Message (1 / 5) NoAudio True,
                 Message (3 / 10) (Base64 [0, 64, 0, 192]) False] ?s0 =
            step (Message (3 / 10) (Base64 [0, 64, 0, 192]) False) ?I"
    by simp
  show ?thesis unfolding r2 r3 using a ctx p d t n so 1 2 3 4 by blast
qed

text \<open>
  When the message of the interrupt carries a chunk that \<open>processPcmData\<close> rejects (here
  three bytes), the handler ends in the audio branch and the interrupted branch is not
  reached: the source stays in the set, is not stopped, and the next chunk, at clock 0.3,
  starts at the old \<open>nextStartTime = 1\<close>.
\<close>

theorem interrupt_undecodable_counterexample:
  "run [Message 0 (Base64 (replicate 48000 0)) False, Message (1 / 5) (Base64 [1, 2, 3]) True]
     (new_session standard_ctx [0]) =
     (new_session standard_ctx [0])\<lparr>nextStartTime := 1, sources := [0], created := 1,
                      trace := [SourceStart 0 0 1]\<rparr> \<and>
   scheduled (trace (run [Message 0 (Base64 (replicate 48000 0)) False,
                          Message (1 / 5) (Base64 [1, 2, 3]) True,
                          Message (3 / 10) (Base64 [0, 64, 0, 192]) False]
                       (new_session standard_ctx [0]))) = [(0, 1), (1, 1 / 12000)]"
proof -
  let ?s0 = "new_session standard_ctx [0]"
  let ?S = "?s0\<lparr>nextStartTime := 1, sources := [0], created := 1, trace := [SourceStart 0 0 1]\<rparr>"
  have S: "run [Message 0 (Base64 (replicate 48000 0)) False] ?s0 = ?S"
    by (rule one_second_played)
  have odd: "processPcmData [1, 2, 3] (outputAudioContext ?S) 24000 1 = Inl RangeError"
    by (simp add: processPcmData_def)
  have I: "step (Message (1 / 5) (Base64 [1, 2, 3]) True) ?S = ?S"
    using odd by (simp add: onmessage_playback_def onmessage_audio_def new_session_def)
  have ctx: "supports_playback (outputAudioContext ?S)"
    by (simp add: new_session_def supports_playback_def standard_ctx_def)
  have d: "decodable [0, 64, 0, 192]" by (simp add: decodable_def)
  have "onmessage_audio (3 / 10) (Base64 [0, 64, 0, 192]) ?S =
     (None, ?S\<lparr>nextStartTime := max (nextStartTime ?S) (3 / 10) + chunk_duration [0, 64, 0, 192],
               sources := (if created ?S \<in> set (sources ?S) then sources ?S
                           else sources ?S @ [created ?S]),
               created := Suc (created ?S),
               trace := trace ?S @ [SourceStart (created ?S) (max (nextStartTime ?S) (3 / 10))
                                     (chunk_duration [0, 64, 0, 192])]\<rparr>)"
    using ctx d by (rule onmessage_audio_decodable)
  then have "scheduled (trace (snd (onmessage_audio (3 / 10) (Base64 [0, 64, 0, 192]) ?S))) =
             [(0, 1), (1, 1 / 12000)]"
    by (simp add: chunk_duration_def)
  then have N: "scheduled (trace (step (Message (3 / 10) (Base64 [0, 64, 0, 192]) False) ?S)) =
             [(0, 1), (1, 1 / 12000)]"
    by (simp only: plain_message)
  have A: "run [Message 0 (Base64 (replicate 48000 0)) False, Message (1 / 5) (Base64 [1, 2, 3]) True] ?s0 = ?S"
    using S I by simp
  have B: "run [Message 0 (Base64 (replicate 48000 0)) False,
                          Message (1 / 5) (Base64 [1, 2, 3]) True,
                          Message (3 / 10) (Base64 [0, 64, 0, 192]) False] ?s0 =
           step (Message (3 / 10) (Base64 [0, 64, 0, 192]) False) ?S"
    using S I by simp
  show ?thesis unfolding A B using N by simp
qed

lemma cleanup_idem: "cleanup (cleanup s) = cleanup s"
  by (simp add: cleanup_def cleanup_first_def Let_def safeCloseAudioContext_def emit_def)

lemma cleanup_running:
  assumes "\<not> isCleaningUp s" and "\<not> inputClosed s" and "\<not> outputClosed s"
  shows "cleanup s =
     s\<lparr>isCleaningUp := True, isSocketOpen := False, sources := [],
       inputClosed := True, outputClosed := True,
       trace := trace s @ map SourceStop (sources s) @ map TrackStop (tracks s) @
                  [CtxClose InputCtx, CtxClose OutputCtx]\<rparr>"
  using assms by (simp add: cleanup_def cleanup_first_def Let_def safeCloseAudioContext_def emit_def)

lemma disconnect_running:
  assumes "\<not> isCleaningUp s" and "\<not> inputClosed s" and "\<not> outputClosed s"
  shows "disconnect s =
     s\<lparr>isCleaningUp := True, isSocketOpen := False, sources := [],
       inputClosed := True, outputClosed := True,
       trace := trace s @ map SourceStop (sources s) @ map TrackStop (tracks s) @
                  [CtxClose InputCtx, SessionClose, CtxClose OutputCtx]\<rparr>"
  using assms
  by (simp add: disconnect_def cleanup_first_def Let_def safeCloseAudioContext_def emit_def)

lemma filter_release_SourceStop [simp]:
  "filter is_release (map SourceStop xs) = map SourceStop xs"
  by (induction xs) simp_all

lemma filter_release_TrackStop [simp]:
  "filter is_release (map TrackStop ys) = map TrackStop ys"
  by (induction ys) simp_all

text \<open>
  C8. For a running session (not cleaning up, both contexts open), \<open>disconnect\<close> stops each
  active source once, stops each track once and closes each context once; a second
  \<open>disconnect\<close>, or the \<open>onclose\<close> event after it, adds no release effect, and \<open>cleanup\<close> after
  it changes nothing.
\<close>

theorem teardown_idempotent:
  assumes "\<not> isCleaningUp s" and "\<not> inputClosed s" and "\<not> outputClosed s"
    and "distinct (sources s)" and "distinct (tracks s)"
  shows "filter is_release (trace (disconnect s)) =
           filter is_release (trace s) @
             map SourceStop (sources s) @ map TrackStop (tracks s) @
             [CtxClose InputCtx, CtxClose OutputCtx] \<and>
         distinct (map SourceStop (sources s) @ map TrackStop (tracks s) @
                     [CtxClose InputCtx, CtxClose OutputCtx]) \<and>
         filter is_release (trace (disconnect (disconnect s))) =
           filter is_release (trace (disconnect s)) \<and>
         filter is_release (trace (onclose (disconnect s))) =
           filter is_release (trace (disconnect s)) \<and>
         cleanup (disconnect s) = disconnect s"
proof -
  have d: "disconnect s =
     s\<lparr>isCleaningUp := True, isSocketOpen := False, sources := [],
       inputClosed := True, outputClosed := True,
       trace := trace s @ map SourceStop (sources s) @ map TrackStop (tracks s) @
                  [CtxClose InputCtx, SessionClose, CtxClose OutputCtx]\<rparr>"
    by (rule disconnect_running [OF assms(1-3)])
  have flag: "isCleaningUp (disconnect s)" unfolding d by simp
  have c: "cleanup t = t" if "isCleaningUp t" for t
    using that by (simp add: cleanup_def)
  have 1: "filter is_release (trace (disconnect s)) =
           filter is_release (trace s) @
             map SourceStop (sources s) @ map TrackStop (tracks s) @
             [CtxClose InputCtx, CtxClose OutputCtx]"
    unfolding d by simp
  have 2: "distinct (map SourceStop (sources s) @ map TrackStop (tracks s) @
                     [CtxClose InputCtx, CtxClose OutputCtx])"
    using assms(4,5) by (auto simp: distinct_map inj_on_def)
  have 3: "filter is_release (trace (disconnect (disconnect s))) =
           filter is_release (trace (disconnect s))"
    using flag by (simp add: disconnect_def [of "disconnect s"] c emit_def)
  have 4: "filter is_release (trace (onclose (disconnect s))) =
           filter is_release (trace (disconnect s))"
    using flag by (simp add: onclose_def c emit_def)
  have 5: "cleanup (disconnect s) = disconnect s" using flag by (rule c)
  show ?thesis using 1 2 3 4 5 by blast
qed

text \<open>The theorem at a new session with one microphone track.\<close>

theorem teardown_idempotent_witness:
  "\<not> isCleaningUp (new_session standard_ctx [7]) \<and>
   \<not> inputClosed (new_session standard_ctx [7]) \<and>
   \<not> outputClosed (new_session standard_ctx [7]) \<and>
   distinct (sources (new_session standard_ctx [7])) \<and>
   distinct (tracks (new_session standard_ctx [7])) \<and>
   filter is_release (trace (disconnect (new_session standard_ctx [7]))) =
     [TrackStop 7, CtxClose InputCtx, CtxClose OutputCtx] \<and>
   filter is_release (trace (disconnect (disconnect (new_session standard_ctx [7])))) =
     [TrackStop 7, CtxClose InputCtx, CtxClose OutputCtx] \<and>
   filter is_release (trace (onclose (disconnect (new_session standard_ctx [7])))) =
     [TrackStop 7, CtxClose InputCtx, CtxClose OutputCtx]"
proof -
  let ?s = "new_session standard_ctx [7]"
  have h: "\<not> isCleaningUp ?s" "\<not> inputClosed ?s" "\<not> outputClosed ?s"
    "distinct (sources ?s)" "distinct (tracks ?s)"
    by (simp_all add: new_session_def)
  note T = teardown_idempotent [OF h]
  have 1: "filter is_release (trace (disconnect ?s)) =
     [TrackStop 7, CtxClose InputCtx, CtxClose OutputCtx]"
    using T by (simp add: new_session_def)
  have 2: "filter is_release (trace (disconnect (disconnect ?s))) =
     filter is_release (trace (disconnect ?s))"
    using T by blast
  have 3: "filter is_release (trace (onclose (disconnect ?s))) =
     filter is_release (trace (disconnect ?s))"
    using T by blast
  show ?thesis using h 1 2 3 by simp
qed

text \<open>
  C10. When \<open>process.env.API_KEY\<close> is undefined (or the empty string),
  \<open>connectToJhumaLive\<close> resolves with the inert object, the only effect is one call of the
  error callback (no context is opened and no microphone stream is requested), and each of
  the four methods of the inert object leaves every state unchanged.
\<close>

theorem connect_without_api_key:
  assumes "API_KEY env = None \<or> API_KEY env = Some []"
  shows "\<exists>s. connectToJhumaLive env = (Inr Inert, s) \<and>
           trace s = [OnError ApiKeyMissing] \<and>
           (\<forall>w base64Image t muted.
              conn_disconnect Inert w = w \<and> conn_sendVideoFrame Inert base64Image w = w \<and>
              conn_sendText Inert t w = w \<and> conn_setMuted Inert muted w = w)"
proof -
  let ?s = "emit [OnError ApiKeyMissing] (new_session (outputLimits env) [])"
  have "connectToJhumaLive env = (Inr Inert, ?s)"
    using assms by (auto simp: connectToJhumaLive_def Let_def)
  moreover have "trace ?s = [OnError ApiKeyMissing]"
    by (simp add: emit_def new_session_def)
  moreover have "conn_disconnect Inert w = w \<and> conn_sendVideoFrame Inert base64Image w = w \<and>
              conn_sendText Inert t w = w \<and> conn_setMuted Inert muted w = w"
    for w base64Image t muted
    by (simp add: conn_disconnect_def conn_sendVideoFrame_def conn_sendText_def conn_setMuted_def)
  ultimately show ?thesis by blast
qed

text \<open>The theorem at an environment without a key.\<close>

theorem connect_without_api_key_witness:
  "API_KEY \<lparr>API_KEY = None, microphone = Some [0], handshake = True,
            sdkTextRoute = Some SessionSend, outputLimits = standard_ctx\<rparr> = None \<and>
   fst (connectToJhumaLive \<lparr>API_KEY = None, microphone = Some [0], handshake = True,
            sdkTextRoute = Some SessionSend, outputLimits = standard_ctx\<rparr>) = Inr Inert \<and>
   trace (snd (connectToJhumaLive \<lparr>API_KEY = None, microphone = Some [0], handshake = True,
            sdkTextRoute = Some SessionSend, outputLimits = standard_ctx\<rparr>)) =
     [OnError ApiKeyMissing] \<and>
   conn_disconnect Inert (new_session standard_ctx [0]) = new_session standard_ctx [0]"
proof -
  let ?env = "\<lparr>API_KEY = None, microphone = Some [0], handshake = True,
            sdkTextRoute = Some SessionSend, outputLimits = standard_ctx\<rparr>"
  have h: "API_KEY ?env = None \<or> API_KEY ?env = Some []" by simp
  obtain s where s: "connectToJhumaLive ?env = (Inr Inert, s)"
    "trace s = [OnError ApiKeyMissing]"
    "\<forall>w base64Image t muted.
              conn_disconnect Inert w = w \<and> conn_sendVideoFrame Inert base64Image w = w \<and>
              conn_sendText Inert t w = w \<and> conn_setMuted Inert muted w = w"
    using connect_without_api_key [OF h] by blast
  have "conn_disconnect Inert (new_session standard_ctx [0]) = new_session standard_ctx [0]"
    using s(3) by blast
  then show ?thesis using s(1,2) by simp
qed

text \<open>With a key, a microphone and a successful handshake the connection is live.\<close>

lemma connect_live:
  "connectToJhumaLive \<lparr>API_KEY = Some (js ''k''), microphone = Some [0], handshake = True,
            sdkTextRoute = Some SessionSend, outputLimits = standard_ctx\<rparr> =
   (Inr Live, (new_session standard_ctx [0])\<lparr>isSocketOpen := True, textRoute := Some SessionSend,
       trace := [CtxOpen InputCtx, CtxOpen OutputCtx, GetUserMedia, LiveConnect, OnConnect]\<rparr>)"
  by (simp add: connectToJhumaLive_def Let_def js_def emit_def new_session_def)

section \<open>The conversation component: properties\<close>

text \<open>What the setters leave unchanged.\<close>

lemma setStreamingUser_fields [simp]:
  "streamingUser (setStreamingUser v st) = v"
  "userBufferRef (setStreamingUser v st) = userBufferRef st"
  "jhumaBufferRef (setStreamingUser v st) = jhumaBufferRef st"
  "streamingJhuma (setStreamingUser v st) = streamingJhuma st"
  "transcript (setStreamingUser v st) = transcript st"
  "queued (setStreamingUser v st) = queued st"
  by (simp_all add: setStreamingUser_def)

lemma setStreamingJhuma_fields [simp]:
  "streamingJhuma (setStreamingJhuma v st) = v"
  "userBufferRef (setStreamingJhuma v st) = userBufferRef st"
  "jhumaBufferRef (setStreamingJhuma v st) = jhumaBufferRef st"
  "streamingUser (setStreamingJhuma v st) = streamingUser st"
  "transcript (setStreamingJhuma v st) = transcript st"
  "queued (setStreamingJhuma v st) = queued st"
  by (simp_all add: setStreamingJhuma_def)

lemma setTranscript_fields [simp]:
  "streamingUser (setTranscript eager now u st) = streamingUser st"
  "streamingJhuma (setTranscript eager now u st) = streamingJhuma st"
  "userBufferRef (setTranscript eager now u st) = userBufferRef st"
  "jhumaBufferRef (setTranscript eager now u st) = jhumaBufferRef st"
  "transcript (setTranscript eager now u st) = transcript st"
  by (simp_all add: setTranscript_def)

lemma length_queued_setTranscript:
  "length (queued (setTranscript eager now u st)) =
     (if eager \<and> \<not> dirty st then 1 else Suc (length (queued st)))"
  by (simp add: setTranscript_def)

text \<open>
  A fragment that is not final is appended to the buffer of its sender and shown in the
  live view; it queues nothing for the transcript.
\<close>

lemma onTranscript_fragment_user:
  "onTranscript closureTranscript now eager User fragment False st =
     setStreamingUser (userBufferRef st @ fragment) (st\<lparr>userBufferRef := userBufferRef st @ fragment\<rparr>)"
  by (simp add: onTranscript_def Let_def)

lemma onTranscript_fragment_jhuma:
  "sender \<noteq> User \<Longrightarrow>
   onTranscript closureTranscript now eager sender fragment False st =
     setStreamingJhuma (jhumaBufferRef st @ fragment) (st\<lparr>jhumaBufferRef := jhumaBufferRef st @ fragment\<rparr>)"
  by (simp add: onTranscript_def Let_def)

lemma onTranscript_fragment_buffers:
  "userBufferRef (onTranscript closureTranscript now eager User fragment False st) =
     userBufferRef st @ fragment \<and>
   streamingUser (onTranscript closureTranscript now eager User fragment False st) =
     userBufferRef st @ fragment \<and>
   jhumaBufferRef (onTranscript closureTranscript now eager Jhuma fragment False st) =
     jhumaBufferRef st @ fragment \<and>
   streamingJhuma (onTranscript closureTranscript now eager Jhuma fragment False st) =
     jhumaBufferRef st @ fragment \<and>
   queued (onTranscript closureTranscript now eager sender fragment False st) = queued st"
  by (cases "sender = User") (simp_all add: onTranscript_fragment_user onTranscript_fragment_jhuma)

lemma onTranscript_transcript:
  "transcript (onTranscript closureTranscript now eager sender fragment isFinal st) = transcript st"
  by (simp add: onTranscript_def Let_def)

text \<open>A final fragment clears the buffer and the live view of its sender.\<close>

lemma onTranscript_final_clears:
  "userBufferRef (onTranscript closureTranscript now eager User fragment True st) = [] \<and>
   streamingUser (onTranscript closureTranscript now eager User fragment True st) = [] \<and>
   jhumaBufferRef (onTranscript closureTranscript now eager Jhuma fragment True st) = [] \<and>
   streamingJhuma (onTranscript closureTranscript now eager Jhuma fragment True st) = []"
  by (simp add: onTranscript_def Let_def)

text \<open>A final fragment on a buffer that is blank after trimming queues no update.\<close>

lemma onTranscript_blank_final:
  assumes "sender = User \<longrightarrow> trim (userBufferRef st @ fragment) = []"
    and "sender \<noteq> User \<longrightarrow> trim (jhumaBufferRef st @ fragment) = []"
  shows "queued (onTranscript closureTranscript now eager sender fragment True st) = queued st"
  using assms by (cases "sender = User") (simp_all add: onTranscript_def Let_def)

text \<open>
  A final fragment on a buffer that is not blank queues one update for the transcript,
  unless the sender is the user and the transcript of the closure holds a recent duplicate.
\<close>

lemma onTranscript_final_queues:
  assumes "sender = User \<longrightarrow> trim (userBufferRef st @ fragment) \<noteq> [] \<and>
             \<not> list_ex (isRecentDuplicate now (userBufferRef st @ fragment)) closureTranscript"
    and "sender \<noteq> User \<longrightarrow> trim (jhumaBufferRef st @ fragment) \<noteq> []"
  shows "length (queued (onTranscript closureTranscript now eager sender fragment True st)) =
           (if eager \<and> \<not> dirty (onTranscript closureTranscript now eager sender fragment False st)
            then 1 else Suc (length (queued st)))"
  using assms
  by (cases "sender = User")
     (simp_all add: onTranscript_def Let_def length_queued_setTranscript)

text \<open>
  Over any sequence of events without a final fragment of the user, the buffer of the user
  collects the fragments of the user in the order of their arrival.
\<close>

lemma userBufferRef_other:
  "sender \<noteq> User \<Longrightarrow>
   userBufferRef (onTranscript closureTranscript now eager sender fragment isFinal st) =
     userBufferRef st"
  by (simp add: onTranscript_def Let_def)

lemma userBufferRef_step:
  "\<not> finalizes_user e \<Longrightarrow>
   userBufferRef (ui_step closureTranscript e st) = userBufferRef st @ user_fragment e"
proof (cases e)
  case (Fragment now eager sender fragment isFinal)
  assume "\<not> finalizes_user e"
  then have "sender = User \<Longrightarrow> \<not> isFinal" using Fragment by simp
  then show ?thesis
    using Fragment
    by (cases "sender = User") (simp_all add: onTranscript_fragment_user userBufferRef_other)
next
  case (MapAction now eager origin destination)
  then show ?thesis by (simp add: onMapAction_def)
next
  case Opened
  then show ?thesis by (simp add: setStatus_def)
next
  case (Render now)
  then show ?thesis by (simp add: render_def)
qed

lemma user_buffer_accumulates:
  "\<not> list_ex finalizes_user es \<Longrightarrow>
   userBufferRef (ui_run closureTranscript es st) =
     userBufferRef st @ concat (map user_fragment es)"
proof (induction es arbitrary: st)
  case Nil
  then show ?case by simp
next
  case (Cons e es)
  then show ?case by (simp add: userBufferRef_step)
qed

text \<open>
  The duplicate check reads the transcript of the closure only: the utterances that the
  session itself appends never enter it.
\<close>

lemma toggleSession_start_closure:
  "fst (toggleSession_start eager now st) = transcript st"
  by (simp add: toggleSession_start_def Let_def)

text \<open>
  Steps of a first session, started from the mounted component. Between two callbacks the
  component of a connected session has no work; it is written out with its transcript
  \<open>T\<close>, the live view of the user \<open>v\<close> and the buffer of the user \<open>b\<close>.
\<close>

lemma session_opened:
  "session_run 1000 (Render 1001 # Opened # Render 1500 # es) mounted =
     ui_run [] es
       \<lparr>status = Connected, transcript = [], queued = [], dirty = False,
        streamingUser = [], streamingJhuma = [], userBufferRef = [], jhumaBufferRef = []\<rparr>"
  by (simp add: session_run_def toggleSession_start_def mounted_def setStatus_def
      setTranscript_def setStreamingUser_def setStreamingJhuma_def Let_def render_def
      run_updater_def)

lemma fragment_rendered:
  "render t' (onTranscript [] t e User fragment False
      \<lparr>status = Connected, transcript = T, queued = [], dirty = False,
       streamingUser = [], streamingJhuma = [], userBufferRef = [], jhumaBufferRef = []\<rparr>) =
     \<lparr>status = Connected, transcript = T, queued = [], dirty = False,
      streamingUser = fragment, streamingJhuma = [], userBufferRef = fragment,
      jhumaBufferRef = []\<rparr>"
  by (simp add: onTranscript_fragment_user setStreamingUser_def render_def)

lemma js_Hel_lo: "js ''Hel'' @ js ''lo'' = js ''Hello''"
  by (simp add: js_def)

lemma trim_Hello: "trim (js ''Hello'') \<noteq> []"
  by (simp add: js_def trim_def isWhiteSpace_def)

lemma trim_hi: "trim (js ''hi'') \<noteq> []"
  by (simp add: js_def trim_def isWhiteSpace_def)

lemma toString_10500: "toString_nat 10500 = js ''10500''"
  by (simp add: toString_nat.simps js_def)

lemma toString_10501: "toString_nat 10501 = js ''10501''"
  by (simp add: toString_nat.simps js_def)

lemma toString_11500: "toString_nat 11500 = js ''11500''"
  by (simp add: toString_nat.simps js_def)

lemma toString_11501: "toString_nat 11501 = js ''11501''"
  by (simp add: toString_nat.simps js_def)

text \<open>
  A final fragment with text changes the live view before the updater is queued, so the
  updater is deferred and reads the emptied buffer at the render.
\<close>

lemma final_lo_rendered:
  "render t' (onTranscript [] t e User (js ''lo'') True
     \<lparr>status = Connected, transcript = T, queued = [], dirty = False,
      streamingUser = js ''Hel'', streamingJhuma = [], userBufferRef = js ''Hel'',
      jhumaBufferRef = []\<rparr>) =
   \<lparr>status = Connected,
    transcript = T @ [\<lparr>item_id = toString_nat t', item_sender = User, item_text = Some [],
                        item_mapData = None\<rparr>],
    queued = [], dirty = False,
    streamingUser = [], streamingJhuma = [], userBufferRef = [], jhumaBufferRef = []\<rparr>"
proof -
  have ne: "js ''Hello'' \<noteq> js ''Hel''" by (simp add: js_def)
  show ?thesis
    by (simp add: onTranscript_def setStreamingUser_def setTranscript_def Let_def
        js_Hel_lo trim_Hello ne render_def run_updater_def)
qed

text \<open>
  A final fragment with empty text (what the session sends at the end of a turn) on a
  buffer that is already shown: the updater is called at once when React chooses so, and at
  the next render otherwise.
\<close>

lemma final_hi_rendered:
  "render t' (onTranscript [] t e User [] True
     \<lparr>status = Connected, transcript = T, queued = [], dirty = False,
      streamingUser = js ''hi'', streamingJhuma = [], userBufferRef = js ''hi'',
      jhumaBufferRef = []\<rparr>) =
   \<lparr>status = Connected,
    transcript = T @ [if e then \<lparr>item_id = toString_nat t, item_sender = User,
                                  item_text = Some (js ''hi''), item_mapData = None\<rparr>
                       else \<lparr>item_id = toString_nat t', item_sender = User,
                              item_text = Some [], item_mapData = None\<rparr>],
    queued = [], dirty = False,
    streamingUser = [], streamingJhuma = [], userBufferRef = [], jhumaBufferRef = []\<rparr>"
  by (cases e)
     (simp_all add: onTranscript_def setStreamingUser_def setTranscript_def Let_def trim_hi
        render_def run_updater_def)

lemma trim_Hi: "trim (js ''Hi'') \<noteq> []"
  by (simp add: js_def trim_def isWhiteSpace_def)

lemma toString_13001: "toString_nat 13001 = js ''13001''"
  by (simp add: toString_nat.simps js_def)

lemma fragment_jhuma_rendered:
  "render t' (onTranscript [] t e Jhuma fragment False
      \<lparr>status = Connected, transcript = T, queued = [], dirty = False,
       streamingUser = v, streamingJhuma = [], userBufferRef = b, jhumaBufferRef = []\<rparr>) =
     \<lparr>status = Connected, transcript = T, queued = [], dirty = False,
      streamingUser = v, streamingJhuma = fragment, userBufferRef = b,
      jhumaBufferRef = fragment\<rparr>"
  by (simp add: onTranscript_fragment_jhuma setStreamingJhuma_def render_def)

text \<open>
  The end of a turn in which both have spoken: \<open>onmessage\<close> finalizes the assistant and
  then the user in one go. The update of the assistant gives the component work, so the
  updater of the user is always deferred and reads the emptied buffer.
\<close>

lemma turn_complete_rendered:
  "map item_text (transcript (render t'
     (onTranscript [] t e2 User [] True
       (onTranscript [] t e1 Jhuma [] True
          \<lparr>status = Connected, transcript = [], queued = [], dirty = False,
           streamingUser = js ''Hello'', streamingJhuma = js ''Hi'',
           userBufferRef = js ''Hello'', jhumaBufferRef = js ''Hi''\<rparr>)))) =
   [if e1 then Some (js ''Hi'') else Some [], Some []]"
  by (cases e1)
     (simp_all add: onTranscript_def setStreamingUser_def setStreamingJhuma_def
        setTranscript_def Let_def trim_Hi trim_Hello render_def run_updater_def)

lemma turn_lost:
  "map item_text (transcript (session_run 1000
       [Render 1001, Opened, Render 1500,
        Fragment 10000 e1 User (js ''Hello'') False, Render 10001,
        Fragment 12000 e2 Jhuma (js ''Hi'') False, Render 12001,
        Fragment 13000 e3 Jhuma [] True, Fragment 13000 e4 User [] True,
        Render 13001] mounted)) =
     [if e3 then Some (js ''Hi'') else Some [], Some []]"
  by (simp add: session_opened fragment_rendered fragment_jhuma_rendered
      turn_complete_rendered)

text \<open>
  C4 fails on the code. The fragments \<open>"Hel"\<close> (not final) and \<open>"lo"\<close> (final) of the user, in
  a first session: the utterance that is appended has the empty text, not \<open>"Hello"\<close>,
  whatever React's choices are; the buffer and the live view are empty afterwards. And at
  the end of a turn in which the user has said \<open>"Hello"\<close> and the assistant \<open>"Hi"\<close>, the
  utterance of the user is appended with the empty text.
\<close>

theorem utterance_text_lost:
  "(\<forall>e1 e2.
      session_run 1000
        [Render 1001, Opened, Render 1500,
         Fragment 10000 e1 User (js ''Hel'') False, Render 10001,
         Fragment 10500 e2 User (js ''lo'') True, Render 10501] mounted =
      \<lparr>status = Connected,
       transcript = [\<lparr>item_id = js ''10501'', item_sender = User, item_text = Some [],
                       item_mapData = None\<rparr>],
       queued = [], dirty = False,
       streamingUser = [], streamingJhuma = [], userBufferRef = [], jhumaBufferRef = []\<rparr>) \<and>
   (\<forall>e1 e2 e3 e4.
      map item_text (transcript (session_run 1000
        [Render 1001, Opened, Render 1500,
         Fragment 10000 e1 User (js ''Hello'') False, Render 10001,
         Fragment 12000 e2 Jhuma (js ''Hi'') False, Render 12001,
         Fragment 13000 e3 Jhuma [] True, Fragment 13000 e4 User [] True,
         Render 13001] mounted)) =
      [if e3 then Some (js ''Hi'') else Some [], Some []])"
proof (intro conjI allI)
  fix e1 e2
  show "session_run 1000
        [Render 1001, Opened, Render 1500,
         Fragment 10000 e1 User (js ''Hel'') False, Render 10001,
         Fragment 10500 e2 User (js ''lo'') True, Render 10501] mounted =
      \<lparr>status = Connected,
       transcript = [\<lparr>item_id = js ''10501'', item_sender = User, item_text = Some [],
                       item_mapData = None\<rparr>],
       queued = [], dirty = False,
       streamingUser = [], streamingJhuma = [], userBufferRef = [], jhumaBufferRef = []\<rparr>"
    by (simp add: session_opened fragment_rendered final_lo_rendered toString_10501)
next
  fix e1 e2 e3 e4
  show "map item_text (transcript (session_run 1000
        [Render 1001, Opened, Render 1500,
         Fragment 10000 e1 User (js ''Hello'') False, Render 10001,
         Fragment 12000 e2 Jhuma (js ''Hi'') False, Render 12001,
         Fragment 13000 e3 Jhuma [] True, Fragment 13000 e4 User [] True,
         Render 13001] mounted)) =
      [if e3 then Some (js ''Hi'') else Some [], Some []]"
    by (rule turn_lost)
qed

text \<open>
  An item that the code has written at time \<open>t\<close> counts as a recent duplicate exactly when
  the sender and the text agree and \<open>t\<close> is less than 2000 ms before \<open>now\<close>.
\<close>

lemma isRecentDuplicate_written:
  "isRecentDuplicate now buffer
     \<lparr>item_id = toString_nat t, item_sender = s, item_text = x, item_mapData = m\<rparr> =
   (s = User \<and> x = Some buffer \<and> int t > int now - 2000)"
  by (simp add: isRecentDuplicate_def parseInt_toString_nat)

lemma parseInt_10000: "parseInt (js ''10000'') = Some 10000"
  by (simp add: js_def parseInt_def isWhiteSpace_def digit_value_def)

text \<open>
  The check does suppress a duplicate that is in the transcript of the closure (an
  utterance of the session before): the same text less than 2000 ms after the id of the
  item queues nothing, and 3000 ms after it queues the utterance.
\<close>

lemma closure_duplicate_suppressed:
  "queued (onTranscript
     [\<lparr>item_id = js ''10000'', item_sender = User, item_text = Some (js ''hi''),
        item_mapData = None\<rparr>]
     11999 e User [] True
     \<lparr>status = Connected, transcript = [], queued = [], dirty = False,
      streamingUser = js ''hi'', streamingJhuma = [], userBufferRef = js ''hi'',
      jhumaBufferRef = []\<rparr>) = [] \<and>
   queued (onTranscript
     [\<lparr>item_id = js ''10000'', item_sender = User, item_text = Some (js ''hi''),
        item_mapData = None\<rparr>]
     13000 False User [] True
     \<lparr>status = Connected, transcript = [], queued = [], dirty = False,
      streamingUser = js ''hi'', streamingJhuma = [], userBufferRef = js ''hi'',
      jhumaBufferRef = []\<rparr>) = [Deferred (AppendUtterance User)]"
  by (simp add: onTranscript_def Let_def isRecentDuplicate_def parseInt_10000 trim_hi
      setTranscript_def setStreamingUser_def)

text \<open>
  C1 fails on the code. In a first session the user says \<open>"hi"\<close> twice, the two turns
  ending one second apart. The duplicate check reads the transcript of the closure, which
  is empty, so both utterances are appended, whatever React's choices are; when React
  calls both updaters at once the two utterances are the same text with ids 1000 ms apart.
\<close>

theorem duplicate_not_suppressed:
  "(\<forall>e1 e2 e3 e4.
      map item_sender (transcript (session_run 1000
        [Render 1001, Opened, Render 1500,
         Fragment 10000 e1 User (js ''hi'') False, Render 10001,
         Fragment 10500 e2 User [] True, Render 10501,
         Fragment 11000 e3 User (js ''hi'') False, Render 11001,
         Fragment 11500 e4 User [] True, Render 11501] mounted)) = [User, User]) \<and>
   transcript (session_run 1000
        [Render 1001, Opened, Render 1500,
         Fragment 10000 True User (js ''hi'') False, Render 10001,
         Fragment 10500 True User [] True, Render 10501,
         Fragment 11000 True User (js ''hi'') False, Render 11001,
         Fragment 11500 True User [] True, Render 11501] mounted) =
     [\<lparr>item_id = js ''10500'', item_sender = User, item_text = Some (js ''hi''),
        item_mapData = None\<rparr>,
      \<lparr>item_id = js ''11500'', item_sender = User, item_text = Some (js ''hi''),
        item_mapData = None\<rparr>]"
proof -
  have run: "transcript (session_run 1000
        [Render 1001, Opened, Render 1500,
         Fragment 10000 e1 User (js ''hi'') False, Render 10001,
         Fragment 10500 e2 User [] True, Render 10501,
         Fragment 11000 e3 User (js ''hi'') False, Render 11001,
         Fragment 11500 e4 User [] True, Render 11501] mounted) =
      [if e2 then \<lparr>item_id = js ''10500'', item_sender = User,
                     item_text = Some (js ''hi''), item_mapData = None\<rparr>
       else \<lparr>item_id = js ''10501'', item_sender = User,
              item_text = Some [], item_mapData = None\<rparr>,
       if e4 then \<lparr>item_id = js ''11500'', item_sender = User,
                     item_text = Some (js ''hi''), item_mapData = None\<rparr>
       else \<lparr>item_id = js ''11501'', item_sender = User,
              item_text = Some [], item_mapData = None\<rparr>]"
    for e1 e2 e3 e4
    by (simp add: session_opened fragment_rendered final_hi_rendered
        toString_10500 toString_10501 toString_11500 toString_11501)
  have "map item_sender (transcript (session_run 1000
        [Render 1001, Opened, Render 1500,
         Fragment 10000 e1 User (js ''hi'') False, Render 10001,
         Fragment 10500 e2 User [] True, Render 10501,
         Fragment 11000 e3 User (js ''hi'') False, Render 11001,
         Fragment 11500 e4 User [] True, Render 11501] mounted)) = [User, User]"
    for e1 e2 e3 e4
    unfolding run by simp
  moreover have "transcript (session_run 1000
        [Render 1001, Opened, Render 1500,
         Fragment 10000 True User (js ''hi'') False, Render 10001,
         Fragment 10500 True User [] True, Render 10501,
         Fragment 11000 True User (js ''hi'') False, Render 11001,
         Fragment 11500 True User [] True, Render 11501] mounted) =
     [\<lparr>item_id = js ''10500'', item_sender = User, item_text = Some (js ''hi''),
        item_mapData = None\<rparr>,
      \<lparr>item_id = js ''11500'', item_sender = User, item_text = Some (js ''hi''),
        item_mapData = None\<rparr>]"
    unfolding run by simp
  ultimately show ?thesis by blast
qed

end
